theory Spec2Isabelle
  imports Complex_Main "HOL-Library.Signed_Division"
begin

section \<open>Common types (types.hpp)\<close>

text \<open>
  Modelling conventions.
  \<^item> The C++ \<open>int\<close>, \<open>int32_t\<close> and \<open>int16_t\<close> values are modelled by \<open>int\<close>: signed
    overflow is undefined behaviour in C++, so the model describes the runs in which no
    arithmetic overflows.  C++ integer division truncates towards zero and is written
    \<open>sdiv\<close>.
  \<^item> A \<open>float\<close> is modelled by an exact rational (with \<open>+infinity\<close> where the code
    produces it).  The model agrees with IEEE arithmetic on every run whose intermediate
    values are exactly representable (small integers and dyadic fractions); all concrete
    runs evaluated below are of this kind.  NaN and a zero \<open>resolution\<close> are outside
    the model.
  \<^item> A \<open>std::vector\<close> is a list; reading or writing it out of range is undefined
    behaviour in C++ and unspecified here.  The grid operations guard every cell access
    by \<open>is_valid\<close>.
  \<^item> A member function that mutates its object takes the object and returns the new one.
\<close>

record GridCell =
  blocked :: bool
  net :: int
  usage_count :: int
  history_cost :: rat
  is_obstacle :: bool
  is_zone :: bool
  pad_blocked :: bool
  original_net :: int

definition GridCell_default :: GridCell where
  "GridCell_default = \<lparr> blocked = False, net = 0, usage_count = 0, history_cost = 0,
     is_obstacle = False, is_zone = False, pad_blocked = False, original_net = 0 \<rparr>"

section \<open>The 3D grid (grid.hpp, grid.cpp)\<close>

record Grid3D =
  cells :: "GridCell list"
  cols :: int
  rows :: int
  layers :: int
  resolution :: rat
  origin_x :: rat
  origin_y :: rat
  congestion :: "int list"
  congestion_cols :: int
  congestion_rows :: int
  congestion_size :: int

definition Grid3D_new :: "int \<Rightarrow> int \<Rightarrow> int \<Rightarrow> rat \<Rightarrow> rat \<Rightarrow> rat \<Rightarrow> Grid3D" where
  "Grid3D_new c r l res ox oy =
     (let ccols = max 1 (c sdiv 8); crows = max 1 (r sdiv 8) in
      \<lparr> cells = replicate (nat (c * r * l)) GridCell_default,
        cols = c, rows = r, layers = l,
        resolution = res, origin_x = ox, origin_y = oy,
        congestion = replicate (nat (l * crows * ccols)) 0,
        congestion_cols = ccols, congestion_rows = crows, congestion_size = 8 \<rparr>)"

definition is_valid :: "Grid3D \<Rightarrow> int \<Rightarrow> int \<Rightarrow> int \<Rightarrow> bool" where
  "is_valid g x y layer \<longleftrightarrow>
     x \<ge> 0 \<and> x < cols g \<and> y \<ge> 0 \<and> y < rows g \<and> layer \<ge> 0 \<and> layer < layers g"

definition index :: "Grid3D \<Rightarrow> int \<Rightarrow> int \<Rightarrow> int \<Rightarrow> nat" where
  "index g x y layer = nat (layer * rows g * cols g + y * cols g + x)"

definition cell_at :: "Grid3D \<Rightarrow> int \<Rightarrow> int \<Rightarrow> int \<Rightarrow> GridCell" where
  "cell_at g x y layer = cells g ! index g x y layer"

text \<open>A write through the reference returned by \<open>at(x, y, layer)\<close>.\<close>

definition set_at :: "Grid3D \<Rightarrow> int \<Rightarrow> int \<Rightarrow> int \<Rightarrow> GridCell \<Rightarrow> Grid3D" where
  "set_at g x y layer c = g\<lparr> cells := (cells g)[index g x y layer := c] \<rparr>"

definition is_valid_and_free :: "Grid3D \<Rightarrow> int \<Rightarrow> int \<Rightarrow> int \<Rightarrow> int \<Rightarrow> bool" where
  "is_valid_and_free g x y layer n =
     (if \<not> is_valid g x y layer then False
      else let cell = cell_at g x y layer in
        if \<not> blocked cell then True
        else net cell = n \<and> \<not> is_obstacle cell)"

definition congestion_index :: "Grid3D \<Rightarrow> int \<Rightarrow> int \<Rightarrow> int \<Rightarrow> nat" where
  "congestion_index g x y layer =
     (let cx = min (x sdiv congestion_size g) (congestion_cols g - 1);
          cy = min (y sdiv congestion_size g) (congestion_rows g - 1)
      in nat (layer * congestion_rows g * congestion_cols g + cy * congestion_cols g + cx))"

definition get_congestion :: "Grid3D \<Rightarrow> int \<Rightarrow> int \<Rightarrow> int \<Rightarrow> rat" where
  "get_congestion g x y layer =
     (let count = congestion g ! congestion_index g x y layer;
          max_cells = congestion_size g * congestion_size g
      in min 1 (of_int count / of_int max_cells))"

definition update_congestion :: "int \<Rightarrow> int \<Rightarrow> int \<Rightarrow> int \<Rightarrow> Grid3D \<Rightarrow> Grid3D" where
  "update_congestion x y layer delta g =
     (let idx = congestion_index g x y layer
      in g\<lparr> congestion := (congestion g)[idx := congestion g ! idx + delta] \<rparr>)"

definition mark_blocked :: "int \<Rightarrow> int \<Rightarrow> int \<Rightarrow> int \<Rightarrow> bool \<Rightarrow> Grid3D \<Rightarrow> Grid3D" where
  "mark_blocked x y layer n obst g =
     (if \<not> is_valid g x y layer then g
      else set_at g x y layer
             ((cell_at g x y layer)\<lparr> blocked := True, net := n, is_obstacle := obst \<rparr>))"

text \<open>
  The two nested loops \<open>for dy in -k..k, for dx in -k..k\<close> that all four marking
  operations run around a centre \<open>(gx, gy)\<close>; \<open>body\<close> is the loop body applied to
  \<open>(gx + dx, gy + dy)\<close>.
\<close>

definition for_square :: "int \<Rightarrow> int \<Rightarrow> int \<Rightarrow> (int \<Rightarrow> int \<Rightarrow> Grid3D \<Rightarrow> Grid3D) \<Rightarrow> Grid3D \<Rightarrow> Grid3D" where
  "for_square k gx gy body g =
     fold (\<lambda>dy. fold (\<lambda>dx. body (gx + dx) (gy + dy)) [- k..k]) [- k..k] g"

text \<open>Body of the lambda \<open>mark_with_clearance\<close> of \<open>mark_segment\<close>.\<close>

definition mark_cell :: "int \<Rightarrow> int \<Rightarrow> int \<Rightarrow> int \<Rightarrow> Grid3D \<Rightarrow> Grid3D" where
  "mark_cell layer n nx ny g =
     (if is_valid g nx ny layer then
        let g1 = (if \<not> blocked (cell_at g nx ny layer)
                  then update_congestion nx ny layer 1
                         (set_at g nx ny layer ((cell_at g nx ny layer)\<lparr> net := n \<rparr>))
                  else g)
        in set_at g1 nx ny layer ((cell_at g1 nx ny layer)\<lparr> blocked := True \<rparr>)
      else g)"

text \<open>Loop body of \<open>mark_via\<close>: the counter is updated before the net is written.\<close>

definition mark_cell_via :: "int \<Rightarrow> int \<Rightarrow> int \<Rightarrow> int \<Rightarrow> Grid3D \<Rightarrow> Grid3D" where
  "mark_cell_via layer n nx ny g =
     (if is_valid g nx ny layer then
        let g1 = (if \<not> blocked (cell_at g nx ny layer)
                  then (let g0 = update_congestion nx ny layer 1 g
                        in set_at g0 nx ny layer ((cell_at g0 nx ny layer)\<lparr> net := n \<rparr>))
                  else g)
        in set_at g1 nx ny layer ((cell_at g1 nx ny layer)\<lparr> blocked := True \<rparr>)
      else g)"

text \<open>Loop body shared by \<open>unmark_segment\<close> and \<open>unmark_via\<close>.\<close>

definition unmark_cell :: "int \<Rightarrow> int \<Rightarrow> int \<Rightarrow> int \<Rightarrow> Grid3D \<Rightarrow> Grid3D" where
  "unmark_cell layer n nx ny g =
     (if is_valid g nx ny layer then
        let cell = cell_at g nx ny layer in
        if pad_blocked cell then set_at g nx ny layer (cell\<lparr> net := original_net cell \<rparr>)
        else if net cell = n then set_at g nx ny layer (cell\<lparr> blocked := False, net := 0 \<rparr>)
        else g
      else g)"

text \<open>
  The Bresenham walk \<open>while (true) { visit(x, y); if (x == x2 && y == y2) break; ... }\<close>
  of \<open>mark_segment\<close> and \<open>unmark_segment\<close>.  The loop has no syntactic bound, so it is a
  partial function: \<open>None\<close> stands for a walk that never reaches \<open>(x2, y2)\<close>.
\<close>

partial_function (option) bresenham_loop ::
  "(int \<Rightarrow> int \<Rightarrow> 'a \<Rightarrow> 'a) \<Rightarrow> int \<Rightarrow> int \<Rightarrow> int \<Rightarrow> int \<Rightarrow> int \<Rightarrow> int \<Rightarrow> int \<Rightarrow> int \<Rightarrow> int \<Rightarrow> 'a \<Rightarrow> 'a option"
where
  "bresenham_loop visit x2 y2 dx dy sx sy x y err s =
     (if x = x2 \<and> y = y2 then Some (visit x y s)
      else bresenham_loop visit x2 y2 dx dy sx sy
             (if 2 * err > - dy then x + sx else x)
             (if 2 * err < dx then y + sy else y)
             (if 2 * err < dx then (if 2 * err > - dy then err - dy else err) + dx
              else (if 2 * err > - dy then err - dy else err))
             (visit x y s))"

declare bresenham_loop.simps [code]

definition bresenham :: "(int \<Rightarrow> int \<Rightarrow> 'a \<Rightarrow> 'a) \<Rightarrow> int \<Rightarrow> int \<Rightarrow> int \<Rightarrow> int \<Rightarrow> 'a \<Rightarrow> 'a option" where
  "bresenham visit x1 y1 x2 y2 s =
     (let dx = \<bar>x2 - x1\<bar>; dy = \<bar>y2 - y1\<bar>;
          sx = (if x1 < x2 then 1 else - 1);
          sy = (if y1 < y2 then 1 else - 1);
          err = dx - dy
      in bresenham_loop visit x2 y2 dx dy sx sy x1 y1 err s)"

definition mark_segment :: "int \<Rightarrow> int \<Rightarrow> int \<Rightarrow> int \<Rightarrow> int \<Rightarrow> int \<Rightarrow> int \<Rightarrow> Grid3D \<Rightarrow> Grid3D option" where
  "mark_segment x1 y1 x2 y2 layer n clearance_cells g =
     bresenham (\<lambda>gx gy. for_square clearance_cells gx gy (mark_cell layer n)) x1 y1 x2 y2 g"

definition mark_via :: "int \<Rightarrow> int \<Rightarrow> int \<Rightarrow> int \<Rightarrow> Grid3D \<Rightarrow> Grid3D" where
  "mark_via x y n radius_cells g =
     fold (\<lambda>layer. for_square radius_cells x y (mark_cell_via layer n)) [0..layers g - 1] g"

definition unmark_segment :: "int \<Rightarrow> int \<Rightarrow> int \<Rightarrow> int \<Rightarrow> int \<Rightarrow> int \<Rightarrow> int \<Rightarrow> Grid3D \<Rightarrow> Grid3D option" where
  "unmark_segment x1 y1 x2 y2 layer n clearance_cells g =
     bresenham (\<lambda>gx gy. for_square clearance_cells gx gy (unmark_cell layer n)) x1 y1 x2 y2 g"

definition unmark_via :: "int \<Rightarrow> int \<Rightarrow> int \<Rightarrow> int \<Rightarrow> Grid3D \<Rightarrow> Grid3D" where
  "unmark_via x y n radius_cells g =
     fold (\<lambda>layer. for_square radius_cells x y (unmark_cell layer n)) [0..layers g - 1] g"

text \<open>The line cells visited by the walk, in order.\<close>

definition segment_points :: "int \<Rightarrow> int \<Rightarrow> int \<Rightarrow> int \<Rightarrow> (int \<times> int) list option" where
  "segment_points x1 y1 x2 y2 = bresenham (\<lambda>x y ps. ps @ [(x, y)]) x1 y1 x2 y2 []"

section \<open>The A* pathfinder (pathfinder.hpp, pathfinder.cpp)\<close>

text \<open>
  Costs are \<open>float\<close> values that may be \<open>+infinity\<close> (\<open>get_negotiated_cost\<close> returns it);
  they are only added and compared.
\<close>

datatype efloat = Fin rat | PInf

fun efloat_add :: "efloat \<Rightarrow> efloat \<Rightarrow> efloat" where
  "efloat_add (Fin a) (Fin b) = Fin (a + b)"
| "efloat_add _ _ = PInf"

fun efloat_less :: "efloat \<Rightarrow> efloat \<Rightarrow> bool" where
  "efloat_less (Fin a) (Fin b) \<longleftrightarrow> a < b"
| "efloat_less (Fin a) PInf \<longleftrightarrow> True"
| "efloat_less PInf _ \<longleftrightarrow> False"

record DesignRules =
  trace_width :: rat
  trace_clearance :: rat
  via_drill :: rat
  via_diameter :: rat
  via_clearance :: rat
  grid_resolution :: rat
  cost_straight :: rat
  cost_turn :: rat
  cost_via :: rat
  cost_congestion :: rat
  congestion_threshold :: rat

definition DesignRules_default :: DesignRules where
  "DesignRules_default = \<lparr> trace_width = 127 / 1000, trace_clearance = 127 / 1000,
     via_drill = 3 / 10, via_diameter = 6 / 10, via_clearance = 127 / 1000,
     grid_resolution = 127 / 1000, cost_straight = 1, cost_turn = 3 / 2, cost_via = 10,
     cost_congestion = 5, congestion_threshold = 1 / 2 \<rparr>"

record AStarNode =
  f_score :: efloat
  g_score :: efloat
  node_x :: int
  node_y :: int
  node_layer :: int
  parent_idx :: int
  via_from_parent :: bool
  node_dx :: int
  node_dy :: int

record Segment =
  seg_x1 :: rat
  seg_y1 :: rat
  seg_x2 :: rat
  seg_y2 :: rat
  seg_width :: rat
  seg_layer :: int
  seg_net :: int

record Via =
  v_x :: rat
  v_y :: rat
  v_drill :: rat
  v_diameter :: rat
  v_layer_from :: int
  v_layer_to :: int
  v_net :: int

record RouteResult =
  segments :: "Segment list"
  vias :: "Via list"
  route_net :: int
  success :: bool

record Neighbor =
  nb_dx :: int
  nb_dy :: int
  nb_dlayer :: int
  cost_mult :: rat

text \<open>
  The \<open>Pathfinder\<close> object.  \<open>grid\<close> is the grid the C++ object refers to; the two
  statistics are the members \<open>last_iterations_\<close> and \<open>last_nodes_explored_\<close>.
\<close>

record Pathfinder =
  grid :: Grid3D
  rules :: DesignRules
  diagonal_routing :: bool
  neighbors_2d :: "Neighbor list"
  trace_half_width_cells :: int
  via_half_cells :: int
  routable_layers :: "int list"
  last_iterations :: int
  last_nodes_explored :: int

definition Pathfinder_new :: "Grid3D \<Rightarrow> DesignRules \<Rightarrow> bool \<Rightarrow> Pathfinder" where
  "Pathfinder_new g r diag =
     \<lparr> grid = g, rules = r, diagonal_routing = diag,
       neighbors_2d =
         [\<lparr> nb_dx = 1, nb_dy = 0, nb_dlayer = 0, cost_mult = 1 \<rparr>,
          \<lparr> nb_dx = - 1, nb_dy = 0, nb_dlayer = 0, cost_mult = 1 \<rparr>,
          \<lparr> nb_dx = 0, nb_dy = 1, nb_dlayer = 0, cost_mult = 1 \<rparr>,
          \<lparr> nb_dx = 0, nb_dy = - 1, nb_dlayer = 0, cost_mult = 1 \<rparr>] @
         (if diag then
            [\<lparr> nb_dx = 1, nb_dy = 1, nb_dlayer = 0, cost_mult = 1414 / 1000 \<rparr>,
             \<lparr> nb_dx = - 1, nb_dy = 1, nb_dlayer = 0, cost_mult = 1414 / 1000 \<rparr>,
             \<lparr> nb_dx = 1, nb_dy = - 1, nb_dlayer = 0, cost_mult = 1414 / 1000 \<rparr>,
             \<lparr> nb_dx = - 1, nb_dy = - 1, nb_dlayer = 0, cost_mult = 1414 / 1000 \<rparr>]
          else []),
       trace_half_width_cells =
         max 1 (\<lceil>(trace_width r / 2 + trace_clearance r) / resolution g\<rceil>),
       via_half_cells =
         max 1 (\<lceil>(via_diameter r / 2 + via_clearance r) / resolution g\<rceil>),
       routable_layers = [0..layers g - 1],
       last_iterations = 0, last_nodes_explored = 0 \<rparr>"

definition set_routable_layers :: "int list \<Rightarrow> Pathfinder \<Rightarrow> Pathfinder" where
  "set_routable_layers ls pf = pf\<lparr> routable_layers := ls \<rparr>"

text \<open>
  The per-cell test that the three blocking predicates repeat: out of bounds blocks; a
  blocked cell blocks according to the sharing policy; a free cell does not block.
\<close>

definition blocks_cell :: "Grid3D \<Rightarrow> int \<Rightarrow> int \<Rightarrow> int \<Rightarrow> int \<Rightarrow> bool \<Rightarrow> bool" where
  "blocks_cell g cx cy layer n allow_sharing =
     (if \<not> is_valid g cx cy layer then True
      else let cell = cell_at g cx cy layer in
        if blocked cell then
          (if allow_sharing \<and> \<not> is_obstacle cell then
             (if net cell = 0 \<and> usage_count cell = 0 then True
              else if net cell \<noteq> n \<and> usage_count cell = 0 then True
              else False)
           else (is_obstacle cell \<or> net cell \<noteq> n))
        else False)"

definition is_trace_blocked :: "Pathfinder \<Rightarrow> int \<Rightarrow> int \<Rightarrow> int \<Rightarrow> int \<Rightarrow> bool \<Rightarrow> bool" where
  "is_trace_blocked pf x y layer n allow_sharing =
     list_ex (\<lambda>dy. list_ex (\<lambda>dx. blocks_cell (grid pf) (x + dx) (y + dy) layer n allow_sharing)
                      [- trace_half_width_cells pf..trace_half_width_cells pf])
             [- trace_half_width_cells pf..trace_half_width_cells pf]"

definition is_diagonal_blocked ::
  "Pathfinder \<Rightarrow> int \<Rightarrow> int \<Rightarrow> int \<Rightarrow> int \<Rightarrow> int \<Rightarrow> int \<Rightarrow> bool \<Rightarrow> bool" where
  "is_diagonal_blocked pf x y dx dy layer n allow_sharing =
     (if dx = 0 \<or> dy = 0 then False
      else list_ex (\<lambda>c. blocks_cell (grid pf) (fst c) (snd c) layer n allow_sharing)
             [(x, y + dy), (x + dx, y)])"

definition is_via_blocked :: "Pathfinder \<Rightarrow> int \<Rightarrow> int \<Rightarrow> int \<Rightarrow> bool \<Rightarrow> bool" where
  "is_via_blocked pf x y n allow_sharing =
     list_ex (\<lambda>layer.
        list_ex (\<lambda>dy. list_ex (\<lambda>dx. blocks_cell (grid pf) (x + dx) (y + dy) layer n allow_sharing)
                         [- via_half_cells pf..via_half_cells pf])
                [- via_half_cells pf..via_half_cells pf])
       [0..layers (grid pf) - 1]"

definition heuristic :: "Pathfinder \<Rightarrow> int \<Rightarrow> int \<Rightarrow> int \<Rightarrow> int \<Rightarrow> int \<Rightarrow> int \<Rightarrow> rat" where
  "heuristic pf x y layer goal_x goal_y goal_layer =
     (let dx = of_int \<bar>x - goal_x\<bar>;
          dy = of_int \<bar>y - goal_y\<bar>;
          h0 = (if diagonal_routing pf then max dx dy + (1414 / 1000 - 1) * min dx dy
                else dx + dy);
          h = (if layer \<noteq> goal_layer then h0 + cost_via (rules pf) else h0)
      in h * cost_straight (rules pf))"

definition get_congestion_cost :: "Pathfinder \<Rightarrow> int \<Rightarrow> int \<Rightarrow> int \<Rightarrow> rat" where
  "get_congestion_cost pf x y layer =
     (let c = get_congestion (grid pf) x y layer in
      if c > congestion_threshold (rules pf)
      then cost_congestion (rules pf) * (1 + (c - congestion_threshold (rules pf)) * 2)
      else 0)"

definition get_negotiated_cost :: "Grid3D \<Rightarrow> int \<Rightarrow> int \<Rightarrow> int \<Rightarrow> rat \<Rightarrow> efloat" where
  "get_negotiated_cost g x y layer present_factor =
     (if \<not> is_valid g x y layer then PInf
      else let cell = cell_at g x y layer in
        if is_obstacle cell then PInf
        else Fin (present_factor * of_int (usage_count cell) + history_cost cell))"

text \<open>\<open>std::round\<close> rounds halves away from zero; \<open>std::clamp\<close> as the standard defines it.\<close>

definition cpp_round :: "rat \<Rightarrow> int" where
  "cpp_round v = (if 0 \<le> v then \<lfloor>v + 1 / 2\<rfloor> else - \<lfloor>- v + 1 / 2\<rfloor>)"

definition clamp :: "int \<Rightarrow> int \<Rightarrow> int \<Rightarrow> int" where
  "clamp v lo hi = (if v < lo then lo else if hi < v then hi else v)"

definition world_to_grid :: "Grid3D \<Rightarrow> rat \<Rightarrow> rat \<Rightarrow> int \<times> int" where
  "world_to_grid g x y =
     (let gx = cpp_round ((x - origin_x g) / resolution g);
          gy = cpp_round ((y - origin_y g) / resolution g)
      in (clamp gx 0 (cols g - 1), clamp gy 0 (rows g - 1)))"

definition grid_to_world :: "Grid3D \<Rightarrow> int \<Rightarrow> int \<Rightarrow> rat \<times> rat" where
  "grid_to_world g gx gy = (origin_x g + of_int gx * resolution g, origin_y g + of_int gy * resolution g)"

text \<open>
  The locals of \<open>route\<close> that stay fixed during the search.  The order in which
  \<open>std::priority_queue\<close> returns nodes of equal \<open>f_score\<close> is not specified; \<open>tie\<close> is an
  arbitrary function choosing, at each iteration, which of the minimal nodes is popped.
\<close>

record RouteCtx =
  start_gx :: int
  start_gy :: int
  end_gx :: int
  end_gy :: int
  valid_start_layers :: "int list"
  valid_end_layers :: "int list"
  ctx_net :: int
  negotiated_mode :: bool
  present_cost_factor :: rat
  weight :: rat
  max_iterations :: int
  tie :: "int \<Rightarrow> nat"

record SearchState =
  open_set :: "AStarNode list"
  closed_set :: "(int \<times> int \<times> int) set"
  g_scores :: "(int \<times> int \<times> int) \<rightharpoonup> efloat"
  closed_list :: "AStarNode list"

text \<open>\<open>top\<close> followed by \<open>pop\<close>: a node of minimal \<open>f_score\<close> leaves the open set.\<close>

definition min_candidates :: "AStarNode list \<Rightarrow> nat list" where
  "min_candidates os =
     filter (\<lambda>i. list_all (\<lambda>m. \<not> efloat_less (f_score m) (f_score (os ! i))) os) [0..<length os]"

definition pop_min :: "nat \<Rightarrow> AStarNode list \<Rightarrow> AStarNode \<times> AStarNode list" where
  "pop_min k os =
     (let cands = min_candidates os;
          i = cands ! (k mod length cands)
      in (os ! i, take i os @ drop (Suc i) os))"

definition push_node :: "AStarNode \<Rightarrow> efloat \<Rightarrow> SearchState \<Rightarrow> SearchState" where
  "push_node nd new_g st =
     st\<lparr> g_scores := (g_scores st)((node_x nd, node_y nd, node_layer nd) \<mapsto> new_g),
         open_set := open_set st @ [nd] \<rparr>"

text \<open>Body of the loop over \<open>neighbors_2d_\<close>; each \<open>continue\<close> returns the state unchanged.\<close>

definition expand_2d :: "RouteCtx \<Rightarrow> Pathfinder \<Rightarrow> AStarNode \<Rightarrow> int \<Rightarrow> Neighbor \<Rightarrow> SearchState \<Rightarrow> SearchState" where
  "expand_2d ctx pf current current_idx nb st =
     (let dx = nb_dx nb; dy = nb_dy nb;
          nx = node_x current + dx; ny = node_y current + dy; nlayer = node_layer current
      in
      if \<not> is_valid (grid pf) nx ny nlayer then st
      else if dx \<noteq> 0 \<and> dy \<noteq> 0 \<and>
              is_diagonal_blocked pf (node_x current) (node_y current) dx dy nlayer (ctx_net ctx)
                (negotiated_mode ctx) then st
      else if blocked (cell_at (grid pf) nx ny nlayer) \<and>
              (let is_start = (nx = start_gx ctx \<and> ny = start_gy ctx \<and>
                               nlayer \<in> set (valid_start_layers ctx));
                   is_end = (nx = end_gx ctx \<and> ny = end_gy ctx \<and>
                             nlayer \<in> set (valid_end_layers ctx))
               in if is_start \<or> is_end then net (cell_at (grid pf) nx ny nlayer) \<noteq> ctx_net ctx
                  else is_trace_blocked pf nx ny nlayer (ctx_net ctx) (negotiated_mode ctx)) then st
      else if (nx, ny, nlayer) \<in> closed_set st then st
      else
        let turn_cost = (if (node_dx current \<noteq> 0 \<or> node_dy current \<noteq> 0) \<and>
                            (node_dx current \<noteq> dx \<or> node_dy current \<noteq> dy)
                         then cost_turn (rules pf) else 0);
            congestion_cost = get_congestion_cost pf nx ny nlayer;
            negotiated_cost = (if negotiated_mode ctx
                               then get_negotiated_cost (grid pf) nx ny nlayer (present_cost_factor ctx)
                               else Fin 0);
            new_g = efloat_add
                      (efloat_add (g_score current)
                         (Fin (cost_mult nb * cost_straight (rules pf) + turn_cost + congestion_cost)))
                      negotiated_cost
        in if (case g_scores st (nx, ny, nlayer) of None \<Rightarrow> True | Some old \<Rightarrow> efloat_less new_g old)
           then
             let h = heuristic pf nx ny nlayer (end_gx ctx) (end_gy ctx) (hd (valid_end_layers ctx));
                 f = efloat_add new_g (Fin (weight ctx * h))
             in push_node \<lparr> f_score = f, g_score = new_g, node_x = nx, node_y = ny,
                            node_layer = nlayer, parent_idx = current_idx,
                            via_from_parent = False, node_dx = dx, node_dy = dy \<rparr> new_g st
           else st)"

text \<open>Body of the loop over \<open>routable_layers_\<close> (layer change through a via).\<close>

definition expand_via :: "RouteCtx \<Rightarrow> Pathfinder \<Rightarrow> AStarNode \<Rightarrow> int \<Rightarrow> int \<Rightarrow> SearchState \<Rightarrow> SearchState" where
  "expand_via ctx pf current current_idx new_layer st =
     (if new_layer = node_layer current then st
      else if is_via_blocked pf (node_x current) (node_y current) (ctx_net ctx) (negotiated_mode ctx)
      then st
      else if (node_x current, node_y current, new_layer) \<in> closed_set st then st
      else
        let congestion_cost = get_congestion_cost pf (node_x current) (node_y current) new_layer;
            negotiated_cost = (if negotiated_mode ctx
                               then get_negotiated_cost (grid pf) (node_x current) (node_y current)
                                      new_layer (present_cost_factor ctx)
                               else Fin 0);
            new_g = efloat_add
                      (efloat_add (g_score current) (Fin (cost_via (rules pf) + congestion_cost)))
                      negotiated_cost
        in if (case g_scores st (node_x current, node_y current, new_layer) of
                 None \<Rightarrow> True | Some old \<Rightarrow> efloat_less new_g old)
           then
             let h = heuristic pf (node_x current) (node_y current) new_layer
                       (end_gx ctx) (end_gy ctx) (hd (valid_end_layers ctx));
                 f = efloat_add new_g (Fin (weight ctx * h))
             in push_node \<lparr> f_score = f, g_score = new_g, node_x = node_x current,
                            node_y = node_y current, node_layer = new_layer,
                            parent_idx = current_idx, via_from_parent = True,
                            node_dx = node_dx current, node_dy = node_dy current \<rparr> new_g st
           else st)"

text \<open>
  One iteration of the \<open>while\<close> loop of \<open>route\<close>.  The first component is the index of the
  goal node in the closed list when the goal test succeeds (the loop then returns).
\<close>

definition astar_step :: "RouteCtx \<Rightarrow> Pathfinder \<Rightarrow> SearchState \<Rightarrow> int option \<times> SearchState \<times> Pathfinder" where
  "astar_step ctx pf st =
     (let pf1 = pf\<lparr> last_iterations := last_iterations pf + 1 \<rparr>;
          popped = pop_min (tie ctx (last_iterations pf)) (open_set st);
          current = fst popped;
          st1 = st\<lparr> open_set := snd popped \<rparr>;
          current_key = (node_x current, node_y current, node_layer current)
      in
      if current_key \<in> closed_set st1 then (None, st1, pf1)
      else
        let current_idx = int (length (closed_list st1));
            st2 = st1\<lparr> closed_set := insert current_key (closed_set st1),
                       closed_list := closed_list st1 @ [current] \<rparr>;
            pf2 = pf1\<lparr> last_nodes_explored := last_nodes_explored pf1 + 1 \<rparr>
        in
        if node_x current = end_gx ctx \<and> node_y current = end_gy ctx \<and>
           node_layer current \<in> set (valid_end_layers ctx)
        then (Some current_idx, st2, pf2)
        else
          let st3 = fold (expand_2d ctx pf2 current current_idx) (neighbors_2d pf2) st2;
              st4 = fold (expand_via ctx pf2 current current_idx) (routable_layers pf2) st3
          in (None, st4, pf2))"

lemma astar_step_iterations:
  "astar_step ctx pf st = (r, st', pf') \<Longrightarrow> last_iterations pf' = last_iterations pf + 1"
  by (auto simp: astar_step_def Let_def split: if_splits)

function astar_loop :: "RouteCtx \<Rightarrow> Pathfinder \<Rightarrow> SearchState \<Rightarrow> int option \<times> SearchState \<times> Pathfinder" where
  "astar_loop ctx pf st =
     (if open_set st \<noteq> [] \<and> last_iterations pf < max_iterations ctx then
        (case astar_step ctx pf st of
           (Some idx, st', pf') \<Rightarrow> (Some idx, st', pf')
         | (None, st', pf') \<Rightarrow> astar_loop ctx pf' st')
      else (None, st, pf))"
  by pat_completeness auto
termination
  by (relation "measure (\<lambda>(ctx, pf, st). nat (max_iterations ctx - last_iterations pf))")
     (auto dest: astar_step_iterations [OF sym])

text \<open>The walk along the parent indices in \<open>reconstruct_path\<close>.\<close>

partial_function (option) collect_path ::
  "Pathfinder \<Rightarrow> AStarNode list \<Rightarrow> int \<Rightarrow> (rat \<times> rat \<times> int \<times> bool) list \<Rightarrow> (rat \<times> rat \<times> int \<times> bool) list option"
where
  "collect_path pf cl idx path =
     (if idx \<ge> 0 \<and> idx < int (length cl) then
        collect_path pf cl (parent_idx (cl ! nat idx))
          (path @ [(fst (grid_to_world (grid pf) (node_x (cl ! nat idx)) (node_y (cl ! nat idx))),
                    snd (grid_to_world (grid pf) (node_x (cl ! nat idx)) (node_y (cl ! nat idx))),
                    node_layer (cl ! nat idx), via_from_parent (cl ! nat idx))])
      else Some path)"

declare collect_path.simps [code]

text \<open>
  Body of the loop that turns the path into segments and vias; the state is
  \<open>(current_x, current_y, current_layer, result)\<close>.
\<close>

definition emit_step ::
  "Pathfinder \<Rightarrow> int \<Rightarrow> rat \<times> rat \<times> int \<times> bool \<Rightarrow> rat \<times> rat \<times> int \<times> RouteResult \<Rightarrow> rat \<times> rat \<times> int \<times> RouteResult" where
  "emit_step pf n entry s =
     (let wx = fst entry; wy = fst (snd entry); layer = fst (snd (snd entry));
          is_via = snd (snd (snd entry));
          current_x = fst s; current_y = fst (snd s); current_layer = fst (snd (snd s));
          result = snd (snd (snd s))
      in
      if is_via then
        (current_x, current_y, layer,
         result\<lparr> vias := vias result @
           [\<lparr> v_x = current_x, v_y = current_y, v_drill = via_drill (rules pf),
              v_diameter = via_diameter (rules pf), v_layer_from = current_layer,
              v_layer_to = layer, v_net = n \<rparr>] \<rparr>)
      else if \<bar>wx - current_x\<bar> > 1 / 100 \<or> \<bar>wy - current_y\<bar> > 1 / 100 then
        (wx, wy, layer,
         result\<lparr> segments := segments result @
           [\<lparr> seg_x1 = current_x, seg_y1 = current_y, seg_x2 = wx, seg_y2 = wy,
              seg_width = trace_width (rules pf), seg_layer = layer, seg_net = n \<rparr>] \<rparr>)
      else s)"

definition reconstruct_path ::
  "Pathfinder \<Rightarrow> AStarNode list \<Rightarrow> int \<Rightarrow> rat \<Rightarrow> rat \<Rightarrow> rat \<Rightarrow> rat \<Rightarrow> int \<Rightarrow> RouteResult option" where
  "reconstruct_path pf cl end_idx start_x start_y end_x end_y n =
     (case collect_path pf cl end_idx [] of
        None \<Rightarrow> None
      | Some collected \<Rightarrow>
          let path = rev collected;
              result = \<lparr> segments = [], vias = [], route_net = n, success = True \<rparr>
          in if length path < 2 then Some result
             else
               let s = fold (emit_step pf n) path
                         (start_x, start_y, fst (snd (snd (hd path))), result);
                   current_x = fst s; current_y = fst (snd s); current_layer = fst (snd (snd s));
                   result1 = snd (snd (snd s))
               in if \<bar>end_x - current_x\<bar> > 1 / 100 \<or> \<bar>end_y - current_y\<bar> > 1 / 100 then
                    Some (result1\<lparr> segments := segments result1 @
                      [\<lparr> seg_x1 = current_x, seg_y1 = current_y, seg_x2 = end_x, seg_y2 = end_y,
                         seg_width = trace_width (rules pf), seg_layer = current_layer,
                         seg_net = n \<rparr>] \<rparr>)
                  else Some result1)"

text \<open>Seeding of the open set: one start node per valid start layer.\<close>

definition seed_start :: "Pathfinder \<Rightarrow> RouteCtx \<Rightarrow> int \<Rightarrow> SearchState \<Rightarrow> SearchState" where
  "seed_start pf ctx sl st =
     (let h = heuristic pf (start_gx ctx) (start_gy ctx) sl (end_gx ctx) (end_gy ctx)
                (hd (valid_end_layers ctx))
      in push_node \<lparr> f_score = Fin h, g_score = Fin 0, node_x = start_gx ctx,
                     node_y = start_gy ctx, node_layer = sl, parent_idx = - 1,
                     via_from_parent = False, node_dx = 0, node_dy = 0 \<rparr> (Fin 0) st)"

definition route_ctx ::
  "Pathfinder \<Rightarrow> rat \<Rightarrow> rat \<Rightarrow> int \<Rightarrow> rat \<Rightarrow> rat \<Rightarrow> int \<Rightarrow> int \<Rightarrow> int list \<Rightarrow> int list \<Rightarrow> bool \<Rightarrow> rat \<Rightarrow> rat \<Rightarrow>
   (int \<Rightarrow> nat) \<Rightarrow> RouteCtx" where
  "route_ctx pf start_x start_y start_layer end_x end_y end_layer n start_layers end_layers
     negotiated present_factor w tiebreak =
     \<lparr> start_gx = fst (world_to_grid (grid pf) start_x start_y),
       start_gy = snd (world_to_grid (grid pf) start_x start_y),
       end_gx = fst (world_to_grid (grid pf) end_x end_y),
       end_gy = snd (world_to_grid (grid pf) end_x end_y),
       valid_start_layers = (if start_layers = [] then [start_layer] else start_layers),
       valid_end_layers = (if end_layers = [] then [end_layer] else end_layers),
       ctx_net = n, negotiated_mode = negotiated, present_cost_factor = present_factor,
       weight = w, max_iterations = cols (grid pf) * rows (grid pf) * 4, tie = tiebreak \<rparr>"

text \<open>
  The search of \<open>route\<close> up to the end of the \<open>while\<close> loop: the goal index (if the goal
  test succeeded), the final search state and the pathfinder with its statistics.
\<close>

definition route_search ::
  "rat \<Rightarrow> rat \<Rightarrow> int \<Rightarrow> rat \<Rightarrow> rat \<Rightarrow> int \<Rightarrow> int \<Rightarrow> int list \<Rightarrow> int list \<Rightarrow> bool \<Rightarrow> rat \<Rightarrow> rat \<Rightarrow>
   (int \<Rightarrow> nat) \<Rightarrow> Pathfinder \<Rightarrow> int option \<times> SearchState \<times> Pathfinder" where
  "route_search start_x start_y start_layer end_x end_y end_layer n start_layers end_layers
     negotiated present_factor w tiebreak pf =
     (let ctx = route_ctx pf start_x start_y start_layer end_x end_y end_layer n start_layers
                  end_layers negotiated present_factor w tiebreak;
          st0 = fold (seed_start pf ctx) (valid_start_layers ctx)
                  \<lparr> open_set = [], closed_set = {}, g_scores = Map.empty, closed_list = [] \<rparr>;
          pf0 = pf\<lparr> last_iterations := 0, last_nodes_explored := 0 \<rparr>
      in astar_loop ctx pf0 st0)"

text \<open>
  \<open>Pathfinder::route\<close>.  The result is \<open>None\<close> only if the parent walk of
  \<open>reconstruct_path\<close> does not terminate.
\<close>

definition route ::
  "rat \<Rightarrow> rat \<Rightarrow> int \<Rightarrow> rat \<Rightarrow> rat \<Rightarrow> int \<Rightarrow> int \<Rightarrow> int list \<Rightarrow> int list \<Rightarrow> bool \<Rightarrow> rat \<Rightarrow> rat \<Rightarrow>
   (int \<Rightarrow> nat) \<Rightarrow> Pathfinder \<Rightarrow> (RouteResult \<times> Pathfinder) option" where
  "route start_x start_y start_layer end_x end_y end_layer n start_layers end_layers
     negotiated present_factor w tiebreak pf =
     (let result = \<lparr> segments = [], vias = [], route_net = n, success = False \<rparr>;
          found = route_search start_x start_y start_layer end_x end_y end_layer n start_layers
                    end_layers negotiated present_factor w tiebreak pf
      in case fst found of
           None \<Rightarrow> Some (result, snd (snd found))
         | Some idx \<Rightarrow>
             (case reconstruct_path (snd (snd found)) (closed_list (fst (snd found))) idx
                     start_x start_y end_x end_y n of
                None \<Rightarrow> None
              | Some r \<Rightarrow> Some (r\<lparr> success := True \<rparr>, snd (snd found))))"

section \<open>Auxiliary notions for the grid proofs\<close>

text \<open>
  The shape invariant that the constructor establishes for positive dimensions and that no
  operation changes: the sizes of the two vectors and the dimensions of the congestion grid.
\<close>

definition wf_grid :: "Grid3D \<Rightarrow> bool" where
  "wf_grid g \<longleftrightarrow>
     0 < cols g \<and> 0 < rows g \<and> 0 < layers g \<and>
     length (cells g) = nat (cols g * rows g * layers g) \<and>
     congestion_size g = 8 \<and>
     congestion_cols g = max 1 (cols g sdiv 8) \<and>
     congestion_rows g = max 1 (rows g sdiv 8) \<and>
     length (congestion g) = nat (layers g * congestion_rows g * congestion_cols g)"

text \<open>Two grids of the same dimensions and vector sizes.\<close>

definition same_shape :: "Grid3D \<Rightarrow> Grid3D \<Rightarrow> bool" where
  "same_shape g g' \<longleftrightarrow>
     cols g' = cols g \<and> rows g' = rows g \<and> layers g' = layers g \<and>
     length (cells g') = length (cells g) \<and>
     congestion_size g' = congestion_size g \<and>
     congestion_cols g' = congestion_cols g \<and>
     congestion_rows g' = congestion_rows g \<and>
     length (congestion g') = length (congestion g)"

text \<open>
  The cells that the nested footprint loops visit, in loop order: around one centre, along
  the points of a segment on one layer, and for a via on the layers \<open>0..n-1\<close>.
  \<open>cell_step\<close> applies a loop body to a cell \<open>(x, y, layer)\<close>.
\<close>

definition square_cells :: "int \<Rightarrow> int \<Rightarrow> int \<Rightarrow> (int \<times> int) list" where
  "square_cells k gx gy = concat (map (\<lambda>dy. map (\<lambda>dx. (gx + dx, gy + dy)) [- k..k]) [- k..k])"

definition segment_cells :: "int \<Rightarrow> int \<Rightarrow> (int \<times> int) list \<Rightarrow> (int \<times> int \<times> int) list" where
  "segment_cells k layer pts =
     concat (map (\<lambda>p. map (\<lambda>q. (fst q, snd q, layer)) (square_cells k (fst p) (snd p))) pts)"

definition via_cells :: "int \<Rightarrow> int \<Rightarrow> int \<Rightarrow> int \<Rightarrow> (int \<times> int \<times> int) list" where
  "via_cells r x y n =
     concat (map (\<lambda>l. map (\<lambda>q. (fst q, snd q, l)) (square_cells r x y)) [0..n - 1])"

definition cell_step :: "(int \<Rightarrow> int \<Rightarrow> int \<Rightarrow> Grid3D \<Rightarrow> Grid3D) \<Rightarrow> int \<times> int \<times> int \<Rightarrow> Grid3D \<Rightarrow> Grid3D" where
  "cell_step body c = body (snd (snd c)) (fst c) (fst (snd c))"

text \<open>Chebyshev distance at most \<open>k\<close> from the centre \<open>(gx, gy)\<close>.\<close>

definition in_square :: "int \<Rightarrow> int \<Rightarrow> int \<Rightarrow> int \<Rightarrow> int \<Rightarrow> bool" where
  "in_square k gx gy cx cy \<longleftrightarrow> \<bar>cx - gx\<bar> \<le> k \<and> \<bar>cy - gy\<bar> \<le> k"

text \<open>What the loop bodies of rip-up and of marking do to the cell they visit.\<close>

definition unmark_result :: "int \<Rightarrow> GridCell \<Rightarrow> GridCell" where
  "unmark_result n c =
     (if pad_blocked c then c\<lparr> net := original_net c \<rparr>
      else if net c = n then c\<lparr> blocked := False, net := 0 \<rparr> else c)"

definition mark_result :: "int \<Rightarrow> GridCell \<Rightarrow> GridCell" where
  "mark_result n c = (if blocked c then c else c\<lparr> net := n, blocked := True \<rparr>)"

text \<open>
  The inflated footprint of a segment: the cell \<open>(cx, cy)\<close> is within distance \<open>k\<close> of
  a cell of the Bresenham line.
\<close>

definition segment_covers :: "int \<Rightarrow> int \<Rightarrow> int \<Rightarrow> int \<Rightarrow> int \<Rightarrow> int \<Rightarrow> int \<Rightarrow> bool" where
  "segment_covers x1 y1 x2 y2 k cx cy =
     (case segment_points x1 y1 x2 y2 of
        None \<Rightarrow> False
      | Some pts \<Rightarrow> list_ex (\<lambda>p. in_square k (fst p) (snd p) cx cy) pts)"

text \<open>A 3 by 3 single-layer grid whose centre cell is a pad of net 5.\<close>

definition pad_grid :: Grid3D where
  "pad_grid = set_at (Grid3D_new 3 3 1 1 0 0) 1 1 0
     \<lparr> blocked = True, net = 5, usage_count = 0, history_cost = 0,
       is_obstacle = False, is_zone = False, pad_blocked = True, original_net = 5 \<rparr>"

text \<open>A 3 by 3 grid whose centre cell is a static obstacle without net.\<close>

definition obstacle_grid :: Grid3D where
  "obstacle_grid = mark_blocked 1 1 0 0 True (Grid3D_new 3 3 1 1 0 0)"

text \<open>A single pad cell whose current net (2) differs from its original net (3).\<close>

definition foreign_pad_grid :: Grid3D where
  "foreign_pad_grid = set_at (Grid3D_new 1 1 1 1 0 0) 0 0 0
     \<lparr> blocked = True, net = 2, usage_count = 0, history_cost = 0,
       is_obstacle = False, is_zone = False, pad_blocked = True, original_net = 3 \<rparr>"

text \<open>
  The cells of congestion block \<open>b\<close> that are unblocked in \<open>g\<close> and blocked in \<open>g'\<close>.
\<close>

definition newly_blocked :: "Grid3D \<Rightarrow> Grid3D \<Rightarrow> nat \<Rightarrow> (int \<times> int \<times> int) set" where
  "newly_blocked g g' b =
     {(x, y, l). is_valid g x y l \<and> congestion_index g x y l = b \<and>
                 \<not> blocked (cell_at g x y l) \<and> blocked (cell_at g' x y l)}"

text \<open>
  What marking preserves from \<open>g\<close> to \<open>g'\<close>: the shape, every blocked flag that is set,
  and the balance between the counters and the newly blocked cells.
\<close>

definition mark_rel :: "Grid3D \<Rightarrow> Grid3D \<Rightarrow> bool" where
  "mark_rel g g' \<longleftrightarrow>
     same_shape g g' \<and>
     (\<forall>x y l. is_valid g x y l \<and> blocked (cell_at g x y l) \<longrightarrow> blocked (cell_at g' x y l)) \<and>
     (\<forall>b < length (congestion g).
        congestion g' ! b = congestion g ! b + int (card (newly_blocked g g' b)))"

text \<open>
  The grids a caller can build: the constructor with positive dimensions, followed by the
  grid's mutating operations and by writes to a valid cell through \<open>at\<close>.
\<close>

inductive reachable_grid :: "Grid3D \<Rightarrow> bool" where
  by_new: "0 < c \<Longrightarrow> 0 < r \<Longrightarrow> 0 < l \<Longrightarrow> reachable_grid (Grid3D_new c r l res ox oy)"
| by_write: "reachable_grid g \<Longrightarrow> is_valid g x y layer \<Longrightarrow> reachable_grid (set_at g x y layer c)"
| by_blocked: "reachable_grid g \<Longrightarrow> reachable_grid (mark_blocked x y layer n obst g)"
| by_segment: "reachable_grid g \<Longrightarrow> mark_segment x1 y1 x2 y2 layer n k g = Some g' \<Longrightarrow>
     reachable_grid g'"
| by_via: "reachable_grid g \<Longrightarrow> reachable_grid (mark_via x y n r g)"
| by_unsegment: "reachable_grid g \<Longrightarrow> unmark_segment x1 y1 x2 y2 layer n k g = Some g' \<Longrightarrow>
     reachable_grid g'"
| by_unvia: "reachable_grid g \<Longrightarrow> reachable_grid (unmark_via x y n r g)"
| by_congestion: "reachable_grid g \<Longrightarrow> is_valid g x y layer \<Longrightarrow>
     reachable_grid (update_congestion x y layer delta g)"

text \<open>A 20 by 20 grid (2 by 2 congestion blocks) after one increment at cell (16,0).\<close>

definition clamp_grid :: Grid3D where
  "clamp_grid = update_congestion 16 0 0 1 (Grid3D_new 20 20 1 1 0 0)"

text \<open>
  The invariant of the search that makes the parent walk terminate: every parent index
  points to an earlier entry of the closed list, for the closed nodes and for the nodes
  waiting in the open set.
\<close>

definition parents_ok :: "AStarNode list \<Rightarrow> bool" where
  "parents_ok cl \<longleftrightarrow> (\<forall>i < length cl. parent_idx (cl ! i) < int i)"

definition search_inv :: "SearchState \<Rightarrow> bool" where
  "search_inv st \<longleftrightarrow>
     parents_ok (closed_list st) \<and>
     (\<forall>n \<in> set (open_set st). parent_idx n < int (length (closed_list st)))"

text \<open>The tie-break that always pops the oldest of the minimal nodes.\<close>

definition first_min :: "int \<Rightarrow> nat" where
  "first_min k = 0"

text \<open>A 3 by 1 single-layer grid whose middle cell is a static obstacle: no route exists.\<close>

definition wall_grid :: Grid3D where
  "wall_grid = mark_blocked 1 0 0 0 True (Grid3D_new 3 1 1 1 0 0)"

definition wall_pf :: Pathfinder where
  "wall_pf = Pathfinder_new wall_grid DesignRules_default False"

text \<open>
  A 3 by 2 grid with two layers; on layer 0 the cell (1,0) is a static obstacle, layer 1 is
  empty.
\<close>

definition detour_grid :: Grid3D where
  "detour_grid = mark_blocked 1 0 0 0 True (Grid3D_new 3 2 2 1 0 0)"

definition detour_pf :: Pathfinder where
  "detour_pf = Pathfinder_new detour_grid DesignRules_default False"

text \<open>The g-score of the goal node a search returned, if it returned one.\<close>

definition found_g_score :: "int option \<times> SearchState \<times> Pathfinder \<Rightarrow> efloat option" where
  "found_g_score res =
     (case fst res of
        None \<Rightarrow> None
      | Some idx \<Rightarrow> Some (g_score (closed_list (fst (snd res)) ! nat idx)))"

text \<open>
  A legal 2D move and its cost, read off the code: the node that \<open>expand_2d\<close> pushes from
  \<open>current\<close> along \<open>nb\<close> when nothing is closed and no g-score is known yet; \<open>None\<close> if
  the move is refused.  \<open>follow_moves\<close> takes a sequence of such moves.
\<close>

definition legal_move :: "RouteCtx \<Rightarrow> Pathfinder \<Rightarrow> AStarNode \<Rightarrow> Neighbor \<Rightarrow> AStarNode option" where
  "legal_move ctx pf current nb =
     (case open_set (expand_2d ctx pf current 0 nb
              \<lparr> open_set = [], closed_set = {}, g_scores = Map.empty, closed_list = [] \<rparr>) of
        [] \<Rightarrow> None
      | nd # _ \<Rightarrow> Some nd)"

fun follow_moves :: "RouteCtx \<Rightarrow> Pathfinder \<Rightarrow> AStarNode \<Rightarrow> Neighbor list \<Rightarrow> AStarNode option" where
  "follow_moves ctx pf current [] = Some current"
| "follow_moves ctx pf current (nb # nbs) =
     (case legal_move ctx pf current nb of
        None \<Rightarrow> None
      | Some nd \<Rightarrow> follow_moves ctx pf nd nbs)"

text \<open>
  A 5 by 2 single-layer grid of resolution 1/128 mm in which the cell (1,1) belongs to net 9,
  and rules with \<open>trace_width = 1/128\<close>, \<open>trace_clearance = 1/256\<close>, so that the trace
  footprint radius is one cell.
\<close>

definition clearance_grid :: Grid3D where
  "clearance_grid = mark_blocked 1 1 0 9 False (Grid3D_new 5 2 1 (1 / 128) 0 0)"

definition clearance_pf :: Pathfinder where
  "clearance_pf = Pathfinder_new clearance_grid
     (DesignRules_default\<lparr> trace_width := 1 / 128, trace_clearance := 1 / 256 \<rparr>) False"

text \<open>
  A 4 by 3 single-layer grid of resolution 1 whose cell (0,0) is a static obstacle, with the
  default rules (step cost 1, turn cost 1.5) and orthogonal moves only.
\<close>

definition turn_grid :: Grid3D where
  "turn_grid = mark_blocked 0 0 0 0 True (Grid3D_new 4 3 1 1 0 0)"

definition turn_pf :: Pathfinder where
  "turn_pf = Pathfinder_new turn_grid DesignRules_default False"

text \<open>The locals and the start node of the call \<open>route(3, 0, 0, 0, 1, 0, 7)\<close> on it.\<close>

definition turn_ctx :: RouteCtx where
  "turn_ctx = route_ctx turn_pf 3 0 0 0 1 0 7 [] [] False 0 1 first_min"

definition turn_start :: AStarNode where
  "turn_start = \<lparr> f_score = Fin 4, g_score = Fin 0, node_x = 3, node_y = 0, node_layer = 0,
     parent_idx = - 1, via_from_parent = False, node_dx = 0, node_dy = 0 \<rparr>"

definition move_left :: Neighbor where
  "move_left = \<lparr> nb_dx = - 1, nb_dy = 0, nb_dlayer = 0, cost_mult = 1 \<rparr>"

definition move_down :: Neighbor where
  "move_down = \<lparr> nb_dx = 0, nb_dy = 1, nb_dlayer = 0, cost_mult = 1 \<rparr>"

text \<open>A tie-break that pops the second of several minimal nodes.\<close>

definition second_min :: "int \<Rightarrow> nat" where
  "second_min k = 1"

section \<open>Grid lemmas\<close>

lemma wf_Grid3D_new: "0 < c \<Longrightarrow> 0 < r \<Longrightarrow> 0 < l \<Longrightarrow> wf_grid (Grid3D_new c r l res ox oy)"
  by (simp add: wf_grid_def Grid3D_new_def Let_def)

lemma same_shape_refl: "same_shape g g"
  by (simp add: same_shape_def)

lemma same_shape_trans: "same_shape a b \<Longrightarrow> same_shape b c \<Longrightarrow> same_shape a c"
  by (simp add: same_shape_def)

lemma same_shape_wf: "same_shape g g' \<Longrightarrow> wf_grid g \<Longrightarrow> wf_grid g'"
  by (simp add: same_shape_def wf_grid_def)

lemma same_shape_valid: "same_shape g g' \<Longrightarrow> is_valid g' x y l = is_valid g x y l"
  by (simp add: same_shape_def is_valid_def)

lemma same_shape_index: "same_shape g g' \<Longrightarrow> index g' x y l = index g x y l"
  by (simp add: same_shape_def index_def)

lemma same_shape_cidx: "same_shape g g' \<Longrightarrow> congestion_index g' x y l = congestion_index g x y l"
  by (simp add: same_shape_def congestion_index_def)

lemma flat_index_bound:
  fixes x y l c r n :: int
  assumes "0 \<le> x" "x < c" "0 \<le> y" "y < r" "0 \<le> l" "l < n"
  shows "0 \<le> l * r * c + y * c + x" and "l * r * c + y * c + x < c * r * n"
proof -
  have c0: "0 < c" and r0: "0 < r" using assms by linarith+
  show "0 \<le> l * r * c + y * c + x" using assms c0 r0 by simp
  have "y * c \<le> (r - 1) * c" using assms c0 by (simp add: mult_right_mono)
  then have a: "y * c + x < r * c" using assms by (simp add: algebra_simps)
  have "l * (r * c) \<le> (n - 1) * (r * c)" using assms c0 r0 by (simp add: mult_right_mono)
  then have "l * r * c + r * c \<le> n * (r * c)" by (simp add: algebra_simps)
  with a show "l * r * c + y * c + x < c * r * n" by (simp add: algebra_simps)
qed

lemma flat_index_inj:
  fixes x y l x' y' l' c r :: int
  assumes "0 \<le> x" "x < c" "0 \<le> y" "y < r" "0 \<le> x'" "x' < c" "0 \<le> y'" "y' < r"
    and eq: "l * r * c + y * c + x = l' * r * c + y' * c + x'"
  shows "x = x' \<and> y = y' \<and> l = l'"
proof -
  have e: "(l * r + y) * c + x = (l' * r + y') * c + x'" using eq by (simp add: algebra_simps)
  have "((l * r + y) * c + x) mod c = x" using assms by simp
  moreover have "((l' * r + y') * c + x') mod c = x'" using assms by simp
  ultimately have x: "x = x'" using e by simp
  have "((l * r + y) * c + x) div c = l * r + y" using assms by simp
  moreover have "((l' * r + y') * c + x') div c = l' * r + y'" using assms by simp
  ultimately have e2: "l * r + y = l' * r + y'" using e by simp
  have "(l * r + y) mod r = y" using assms by simp
  moreover have "(l' * r + y') mod r = y'" using assms by simp
  ultimately have y: "y = y'" using e2 by simp
  have "(l * r + y) div r = l" using assms by simp
  moreover have "(l' * r + y') div r = l'" using assms by simp
  ultimately have "l = l'" using e2 by simp
  with x y show ?thesis by simp
qed

lemma index_less: "wf_grid g \<Longrightarrow> is_valid g x y l \<Longrightarrow> index g x y l < length (cells g)"
  using flat_index_bound [of x "cols g" y "rows g" l "layers g"]
  by (simp add: wf_grid_def is_valid_def index_def nat_less_iff)

lemma index_inj:
  assumes "is_valid g x y l" "is_valid g x' y' l'" "index g x y l = index g x' y' l'"
  shows "x = x' \<and> y = y' \<and> l = l'"
proof -
  have v: "0 \<le> x" "x < cols g" "0 \<le> y" "y < rows g" "0 \<le> l" "l < layers g"
    using assms(1) by (simp_all add: is_valid_def)
  have v': "0 \<le> x'" "x' < cols g" "0 \<le> y'" "y' < rows g" "0 \<le> l'" "l' < layers g"
    using assms(2) by (simp_all add: is_valid_def)
  have "l * rows g * cols g + y * cols g + x = l' * rows g * cols g + y' * cols g + x'"
    using assms(3) flat_index_bound(1) [OF v] flat_index_bound(1) [OF v']
    by (simp add: index_def)
  then show ?thesis
    by (rule flat_index_inj [OF v(1-4) v'(1-4)])
qed

lemma congestion_index_less:
  assumes "wf_grid g" "is_valid g x y l"
  shows "congestion_index g x y l < length (congestion g)"
proof -
  define cx where "cx = min (x sdiv 8) (congestion_cols g - 1)"
  define cy where "cy = min (y sdiv 8) (congestion_rows g - 1)"
  have x: "0 \<le> x" and y: "0 \<le> y" using assms by (simp_all add: is_valid_def)
  have cc: "0 < congestion_cols g" and cr: "0 < congestion_rows g"
    using assms by (simp_all add: wf_grid_def)
  have "0 \<le> x sdiv 8" using x by (simp add: signed_divide_int_def sgn_if)
  then have cx: "0 \<le> cx" "cx < congestion_cols g" using cc by (simp_all add: cx_def)
  have "0 \<le> y sdiv 8" using y by (simp add: signed_divide_int_def sgn_if)
  then have cy: "0 \<le> cy" "cy < congestion_rows g" using cr by (simp_all add: cy_def)
  have l: "0 \<le> l" "l < layers g" using assms by (simp_all add: is_valid_def)
  from flat_index_bound [OF cx cy l]
  show ?thesis using assms
    by (simp add: congestion_index_def wf_grid_def Let_def cx_def cy_def nat_less_iff algebra_simps)
qed

lemma set_square_cells: "(cx, cy) \<in> set (square_cells k gx gy) \<longleftrightarrow> in_square k gx gy cx cy"
proof -
  have m: "(cx, cy) \<in> set (square_cells k gx gy) \<longleftrightarrow>
        (\<exists>dy\<in>{- k..k}. \<exists>dx\<in>{- k..k}. cx = gx + dx \<and> cy = gy + dy)"
    by (auto simp: square_cells_def)
  show ?thesis
  proof
    assume "(cx, cy) \<in> set (square_cells k gx gy)"
    then obtain dx dy where "dy \<in> {- k..k}" "dx \<in> {- k..k}" "cx = gx + dx" "cy = gy + dy"
      unfolding m by blast
    then show "in_square k gx gy cx cy" by (simp add: in_square_def abs_le_iff)
  next
    assume a: "in_square k gx gy cx cy"
    have "cy - gy \<in> {- k..k}" "cx - gx \<in> {- k..k}" "cx = gx + (cx - gx)" "cy = gy + (cy - gy)"
      using a by (auto simp add: in_square_def abs_le_iff)
    then show "(cx, cy) \<in> set (square_cells k gx gy)"
      unfolding m by (intro bexI [of _ "cy - gy"] bexI [of _ "cx - gx"] conjI)
  qed
qed

lemma fold_concat_list: "fold f (concat xss) s = fold (fold f) xss s"
  by (induction xss arbitrary: s) simp_all

lemma for_square_fold:
  "for_square k gx gy body = fold (\<lambda>q. body (fst q) (snd q)) (square_cells k gx gy)"
  by (rule ext) (simp add: for_square_def square_cells_def fold_concat_list fold_map comp_def)

lemma fold_for_square_segment:
  "fold (\<lambda>p. for_square k (fst p) (snd p) (body layer)) pts g =
   fold (cell_step body) (segment_cells k layer pts) g"
  by (simp add: segment_cells_def fold_concat_list fold_map comp_def for_square_fold cell_step_def)

lemma fold_for_square_via:
  "fold (\<lambda>l. for_square r x y (body l)) [0..n - 1] g =
   fold (cell_step body) (via_cells r x y n) g"
  by (simp add: via_cells_def fold_concat_list fold_map comp_def for_square_fold cell_step_def)

lemma set_segment_cells:
  "(cx, cy, cl) \<in> set (segment_cells k layer pts) \<longleftrightarrow>
   cl = layer \<and> (\<exists>p\<in>set pts. in_square k (fst p) (snd p) cx cy)"
proof -
  have "(cx, cy, cl) \<in> set (segment_cells k layer pts) \<longleftrightarrow>
        (\<exists>p\<in>set pts. \<exists>q\<in>set (square_cells k (fst p) (snd p)). cx = fst q \<and> cy = snd q \<and> cl = layer)"
    by (auto simp: segment_cells_def)
  also have "\<dots> \<longleftrightarrow> (\<exists>p\<in>set pts. (cx, cy) \<in> set (square_cells k (fst p) (snd p)) \<and> cl = layer)"
    by (metis prod.collapse fst_conv snd_conv)
  finally show ?thesis by (auto simp add: set_square_cells)
qed

lemma set_via_cells:
  "(cx, cy, cl) \<in> set (via_cells r x y n) \<longleftrightarrow> 0 \<le> cl \<and> cl < n \<and> in_square r x y cx cy"
proof -
  have "(cx, cy, cl) \<in> set (via_cells r x y n) \<longleftrightarrow>
        (\<exists>l\<in>{0..n - 1}. \<exists>q\<in>set (square_cells r x y). cx = fst q \<and> cy = snd q \<and> cl = l)"
    by (auto simp: via_cells_def)
  also have "\<dots> \<longleftrightarrow> (cl \<in> {0..n - 1} \<and> (cx, cy) \<in> set (square_cells r x y))"
    by (metis prod.collapse fst_conv snd_conv)
  finally show ?thesis by (simp add: set_square_cells)
qed

lemma unmark_result_idem: "unmark_result n (unmark_result n c) = unmark_result n c"
  by (simp add: unmark_result_def)

lemma mark_result_idem: "mark_result n (mark_result n c) = mark_result n c"
  by (simp add: mark_result_def)

lemma same_shape_set_at: "same_shape g (set_at g x y l c)"
  by (simp add: same_shape_def set_at_def)

lemma congestion_set_at: "congestion (set_at g x y l c) = congestion g"
  by (simp add: set_at_def)

lemma cell_at_set_at_same:
  assumes "wf_grid g" "is_valid g x y l"
  shows "cell_at (set_at g x y l c) x y l = c"
  using index_less [OF assms] by (simp add: cell_at_def set_at_def index_def)

lemma cell_at_set_at_other:
  assumes "is_valid g x y l" "is_valid g x' y' l'" "(x', y', l') \<noteq> (x, y, l)"
  shows "cell_at (set_at g x y l c) x' y' l' = cell_at g x' y' l'"
proof -
  have "index g x y l \<noteq> index g x' y' l'"
    using index_inj [OF assms(1,2)] assms(3) by blast
  then show ?thesis
    by (simp add: cell_at_def set_at_def index_def)
qed

lemma same_shape_update_congestion: "same_shape g (update_congestion x y l d g)"
  by (simp add: same_shape_def update_congestion_def Let_def)

lemma cell_at_update_congestion: "cell_at (update_congestion x y l d g) x' y' l' = cell_at g x' y' l'"
  by (simp add: cell_at_def update_congestion_def Let_def index_def)

lemma cells_update_congestion: "cells (update_congestion x y l d g) = cells g"
  by (simp add: update_congestion_def Let_def)

lemma mark_cell_via_eq: "mark_cell_via layer n nx ny g = mark_cell layer n nx ny g"
  by (simp add: mark_cell_via_def mark_cell_def Let_def update_congestion_def set_at_def
      cell_at_def index_def congestion_index_def)

lemma same_shape_unmark_cell: "same_shape g (unmark_cell layer n nx ny g)"
  by (simp add: unmark_cell_def Let_def same_shape_set_at same_shape_refl)

lemma congestion_unmark_cell: "congestion (unmark_cell layer n nx ny g) = congestion g"
  by (simp add: unmark_cell_def Let_def congestion_set_at)

lemma cell_at_unmark_cell:
  assumes "wf_grid g" "is_valid g cx cy cl"
  shows "cell_at (unmark_cell layer n nx ny g) cx cy cl =
         (if (cx, cy, cl) = (nx, ny, layer) then unmark_result n (cell_at g cx cy cl)
          else cell_at g cx cy cl)"
proof (cases "(cx, cy, cl) = (nx, ny, layer)")
  case True
  then have e: "cx = nx" "cy = ny" "cl = layer" by simp_all
  have v: "is_valid g nx ny layer" using assms(2) e by simp
  show ?thesis unfolding e using v
    by (simp add: unmark_cell_def Let_def cell_at_set_at_same [OF assms(1) v] unmark_result_def)
next
  case False
  then have ne: "\<not> (cx = nx \<and> cy = ny \<and> cl = layer)" by simp
  show ?thesis
  proof (cases "is_valid g nx ny layer")
    case v: True
    show ?thesis using v
      by (simp add: ne unmark_cell_def Let_def cell_at_set_at_other [OF v assms(2) False])
  next
    case nv: False
    then show ?thesis by (simp add: ne unmark_cell_def)
  qed
qed

lemma same_shape_mark_cell: "same_shape g (mark_cell layer n nx ny g)"
  by (simp add: mark_cell_def Let_def same_shape_def set_at_def update_congestion_def)

lemma cell_at_mark_cell:
  assumes "wf_grid g" "is_valid g cx cy cl"
  shows "cell_at (mark_cell layer n nx ny g) cx cy cl =
         (if (cx, cy, cl) = (nx, ny, layer) then mark_result n (cell_at g cx cy cl)
          else cell_at g cx cy cl)"
proof (cases "is_valid g nx ny layer")
  case True
  let ?c = "cell_at g nx ny layer"
  let ?g0 = "set_at g nx ny layer (?c\<lparr> net := n \<rparr>)"
  let ?g1 = "update_congestion nx ny layer 1 ?g0"
  have sh1: "same_shape g ?g1"
    using same_shape_trans same_shape_set_at same_shape_update_congestion by blast
  have wf1: "wf_grid ?g1"
    using sh1 assms(1) by (rule same_shape_wf)
  have v1: "is_valid ?g1 nx ny layer" "is_valid ?g1 cx cy cl"
    using True assms(2) by (simp_all add: same_shape_valid [OF sh1])
  show ?thesis
  proof (cases "(cx, cy, cl) = (nx, ny, layer)")
    case same: True
    then have e: "cx = nx" "cy = ny" "cl = layer" by simp_all
    have c1: "cell_at ?g1 nx ny layer = ?c\<lparr> net := n \<rparr>"
      by (simp add: cell_at_update_congestion cell_at_set_at_same [OF assms(1) True])
    show ?thesis unfolding e using True
      by (simp add: mark_cell_def Let_def cell_at_set_at_same [OF assms(1) True]
          cell_at_set_at_same [OF wf1 v1(1)] c1 mark_result_def)
  next
    case other: False
    have c0: "cell_at (set_at g nx ny layer c) cx cy cl = cell_at g cx cy cl" for c
      by (rule cell_at_set_at_other [OF True assms(2) other])
    have c1: "cell_at (set_at ?g1 nx ny layer c) cx cy cl = cell_at g cx cy cl" for c
      using cell_at_set_at_other [OF v1 other, of c]
      by (simp add: cell_at_update_congestion c0)
    from other have ne: "\<not> (cx = nx \<and> cy = ny \<and> cl = layer)" by simp
    show ?thesis using True
      by (simp add: ne mark_cell_def Let_def c0 c1)
  qed
next
  case False
  with assms(2) have ne: "\<not> (cx = nx \<and> cy = ny \<and> cl = layer)" by auto
  show ?thesis using False by (simp add: ne mark_cell_def)
qed

lemma congestion_mark_cell:
  "congestion (mark_cell layer n nx ny g) =
     (if is_valid g nx ny layer \<and> \<not> blocked (cell_at g nx ny layer)
      then (congestion g)[congestion_index g nx ny layer :=
              congestion g ! congestion_index g nx ny layer + 1]
      else congestion g)"
  by (simp add: mark_cell_def Let_def set_at_def update_congestion_def congestion_index_def)

lemma fold_cell_step_effect:
  assumes shape: "\<And>l x y g. same_shape g (body l x y g)"
    and cell: "\<And>l x y g cx cy cl. wf_grid g \<Longrightarrow> is_valid g cx cy cl \<Longrightarrow>
        cell_at (body l x y g) cx cy cl =
          (if (cx, cy, cl) = (x, y, l) then f (cell_at g cx cy cl) else cell_at g cx cy cl)"
    and idem: "\<And>c. f (f c) = f c"
  shows "wf_grid g \<Longrightarrow> is_valid g cx cy cl \<Longrightarrow>
         same_shape g (fold (cell_step body) cs g) \<and>
         cell_at (fold (cell_step body) cs g) cx cy cl =
           (if (cx, cy, cl) \<in> set cs then f (cell_at g cx cy cl) else cell_at g cx cy cl)"
proof (induction cs arbitrary: g)
  case Nil
  then show ?case by (simp add: same_shape_refl)
next
  case (Cons c cs)
  let ?g1 = "cell_step body c g"
  have sh: "same_shape g ?g1" by (simp add: cell_step_def shape)
  have wf1: "wf_grid ?g1" using sh Cons.prems(1) by (rule same_shape_wf)
  have v1: "is_valid ?g1 cx cy cl" using Cons.prems(2) by (simp add: same_shape_valid [OF sh])
  have c1: "cell_at ?g1 cx cy cl =
      (if (cx, cy, cl) = c then f (cell_at g cx cy cl) else cell_at g cx cy cl)"
    using cell [OF Cons.prems, of "snd (snd c)" "fst c" "fst (snd c)"]
    by (simp add: cell_step_def)
  from Cons.IH [OF wf1 v1] sh c1 show ?case
    by (auto simp: idem intro: same_shape_trans)
qed

lemma bresenham_loop_total:
  fixes dx dy sx sy :: int
  assumes sx: "sx = 1 \<or> sx = - 1" and sy: "sy = 1 \<or> sy = - 1"
  shows "0 \<le> rx \<Longrightarrow> rx \<le> dx \<Longrightarrow> 0 \<le> ry \<Longrightarrow> ry \<le> dy \<Longrightarrow> nat (rx + ry) = m \<Longrightarrow>
         x2 = x + sx * rx \<Longrightarrow> y2 = y + sy * ry \<Longrightarrow>
         err = dx - dy + rx * dy - ry * dx \<Longrightarrow>
         \<exists>pts. pts \<noteq> [] \<and>
           (\<forall>visit (s::'a). bresenham_loop visit x2 y2 dx dy sx sy x y err s =
                  Some (fold (\<lambda>p. visit (fst p) (snd p)) pts s)) \<and>
           (\<forall>visit (s::'b). bresenham_loop visit x2 y2 dx dy sx sy x y err s =
                  Some (fold (\<lambda>p. visit (fst p) (snd p)) pts s))"
proof (induction m arbitrary: rx ry x y err rule: less_induct)
  case (less m)
  show ?case
  proof (cases "rx = 0 \<and> ry = 0")
    case True
    with less.prems have "x = x2" "y = y2" by simp_all
    then have one: "bresenham_loop visit x2 y2 dx dy sx sy x y err s =
                  Some (fold (\<lambda>p. visit (fst p) (snd p)) [(x, y)] s)" for visit and s :: 'c
      by (subst bresenham_loop.simps) simp
    show ?thesis
      by (rule exI [of _ "[(x, y)]"]) (simp add: one)
  next
    case False
    with less.prems sx sy have ne: "\<not> (x = x2 \<and> y = y2)" by auto
    define stepx where "stepx \<longleftrightarrow> 2 * err > - dy"
    define stepy where "stepy \<longleftrightarrow> 2 * err < dx"
    define rx' where "rx' = (if stepx then rx - 1 else rx)"
    define ry' where "ry' = (if stepy then ry - 1 else ry)"
    define x' where "x' = (if stepx then x + sx else x)"
    define y' where "y' = (if stepy then y + sy else y)"
    define err' where "err' = (if stepy then (if stepx then err - dy else err) + dx
              else (if stepx then err - dy else err))"
    have dx0: "0 \<le> dx" and dy0: "0 \<le> dy" using less.prems by linarith+
    have rxpos: "0 < rx" if stepx
    proof (rule ccontr)
      assume "\<not> 0 < rx"
      with less.prems have rx0: "rx = 0" by simp
      with False less.prems have "1 \<le> ry" by simp
      then have "dx \<le> ry * dx" using dx0 by (simp add: mult_le_cancel_right1)
      moreover have "err = dx - dy - ry * dx" using less.prems rx0 by simp
      ultimately have "2 * err \<le> - dy" using dy0 by simp
      with that show False by (simp add: stepx_def)
    qed
    have rypos: "0 < ry" if stepy
    proof (rule ccontr)
      assume "\<not> 0 < ry"
      with less.prems have ry0: "ry = 0" by simp
      with False less.prems have "1 \<le> rx" by simp
      then have "dy \<le> rx * dy" using dy0 by (simp add: mult_le_cancel_right1)
      moreover have "err = dx - dy + rx * dy" using less.prems ry0 by simp
      ultimately have "dx \<le> 2 * err" using dx0 by simp
      with that show False by (simp add: stepy_def)
    qed
    have some: "stepx \<or> stepy"
    proof (rule ccontr)
      assume "\<not> (stepx \<or> stepy)"
      then have "dx \<le> 2 * err" "2 * err \<le> - dy" by (simp_all add: stepx_def stepy_def)
      with dx0 dy0 have "dx = 0" "dy = 0" by linarith+
      with less.prems False show False by simp
    qed
    have m': "nat (rx' + ry') < m"
      using some rxpos rypos less.prems by (auto simp: rx'_def ry'_def)
    have b: "0 \<le> rx'" "rx' \<le> dx" "0 \<le> ry'" "ry' \<le> dy"
      using rxpos rypos less.prems by (auto simp: rx'_def ry'_def)
    have xe: "x2 = x' + sx * rx'" using less.prems
      by (simp add: x'_def rx'_def algebra_simps)
    have ye: "y2 = y' + sy * ry'" using less.prems
      by (simp add: y'_def ry'_def algebra_simps)
    have ee: "err' = dx - dy + rx' * dy - ry' * dx" using less.prems
      by (simp add: err'_def rx'_def ry'_def algebra_simps)
    from less.IH [OF m' b refl xe ye ee]
    obtain pts where
      pa: "\<And>visit (s::'a). bresenham_loop visit x2 y2 dx dy sx sy x' y' err' s =
                  Some (fold (\<lambda>p. visit (fst p) (snd p)) pts s)" and
      pb: "\<And>visit (s::'b). bresenham_loop visit x2 y2 dx dy sx sy x' y' err' s =
                  Some (fold (\<lambda>p. visit (fst p) (snd p)) pts s)" by blast
    have unf: "bresenham_loop visit x2 y2 dx dy sx sy x y err s =
            bresenham_loop visit x2 y2 dx dy sx sy x' y' err' (visit x y s)" for visit and s :: 'c
      unfolding x'_def y'_def err'_def stepx_def stepy_def
      by (subst bresenham_loop.simps) (simp only: ne if_False)
    have ra: "bresenham_loop visit x2 y2 dx dy sx sy x y err s =
                  Some (fold (\<lambda>p. visit (fst p) (snd p)) ((x, y) # pts) s)" for visit and s :: 'a
      by (simp add: unf pa)
    have rb: "bresenham_loop visit x2 y2 dx dy sx sy x y err s =
                  Some (fold (\<lambda>p. visit (fst p) (snd p)) ((x, y) # pts) s)" for visit and s :: 'b
      by (simp add: unf pb)
    show ?thesis
      by (rule exI [of _ "(x, y) # pts"]) (simp only: ra rb list.distinct simp_thms not_False_eq_True)
  qed
qed

lemma bresenham_total:
  "\<exists>pts. pts \<noteq> [] \<and>
     (\<forall>visit (s::'a). bresenham visit x1 y1 x2 y2 s =
        Some (fold (\<lambda>p. visit (fst p) (snd p)) pts s)) \<and>
     (\<forall>visit (s::'b). bresenham visit x1 y1 x2 y2 s =
        Some (fold (\<lambda>p. visit (fst p) (snd p)) pts s))"
proof -
  have "\<exists>pts. pts \<noteq> [] \<and>
     (\<forall>visit (s::'a). bresenham_loop visit x2 y2 \<bar>x2 - x1\<bar> \<bar>y2 - y1\<bar>
          (if x1 < x2 then 1 else - 1) (if y1 < y2 then 1 else - 1) x1 y1
          (\<bar>x2 - x1\<bar> - \<bar>y2 - y1\<bar>) s =
      Some (fold (\<lambda>p. visit (fst p) (snd p)) pts s)) \<and>
     (\<forall>visit (s::'b). bresenham_loop visit x2 y2 \<bar>x2 - x1\<bar> \<bar>y2 - y1\<bar>
          (if x1 < x2 then 1 else - 1) (if y1 < y2 then 1 else - 1) x1 y1
          (\<bar>x2 - x1\<bar> - \<bar>y2 - y1\<bar>) s =
      Some (fold (\<lambda>p. visit (fst p) (snd p)) pts s))"
    by (rule bresenham_loop_total [where rx = "\<bar>x2 - x1\<bar>" and ry = "\<bar>y2 - y1\<bar>"]) auto
  then show ?thesis by (simp add: bresenham_def Let_def)
qed

lemma fold_snoc_points: "fold (\<lambda>p ps. ps @ [p]) pts acc = acc @ pts"
  by (induction pts arbitrary: acc) simp_all

lemma bresenham_points:
  "\<exists>pts. segment_points x1 y1 x2 y2 = Some pts \<and> pts \<noteq> [] \<and>
     (\<forall>visit (s::'a). bresenham visit x1 y1 x2 y2 s =
        Some (fold (\<lambda>p. visit (fst p) (snd p)) pts s))"
proof -
  obtain pts where ne: "pts \<noteq> []"
    and a: "\<forall>visit (s::'a). bresenham visit x1 y1 x2 y2 s =
              Some (fold (\<lambda>p. visit (fst p) (snd p)) pts s)"
    and b: "\<forall>visit (s::(int \<times> int) list). bresenham visit x1 y1 x2 y2 s =
              Some (fold (\<lambda>p. visit (fst p) (snd p)) pts s)"
    using bresenham_total [where 'a = 'a and 'b = "(int \<times> int) list", of x1 y1 x2 y2]
    by (elim exE conjE)
  have "segment_points x1 y1 x2 y2 = Some pts"
    by (simp add: segment_points_def b fold_snoc_points)
  then show ?thesis using ne a by (intro exI [of _ pts] conjI)
qed

lemma mark_cell_via_fun_eq: "mark_cell_via = mark_cell"
  by (intro ext) (rule mark_cell_via_eq)

lemma unmark_segment_fold:
  assumes "segment_points x1 y1 x2 y2 = Some pts"
  shows "unmark_segment x1 y1 x2 y2 layer n k g =
         Some (fold (cell_step (\<lambda>l. unmark_cell l n)) (segment_cells k layer pts) g)"
proof -
  obtain pts' where p: "segment_points x1 y1 x2 y2 = Some pts'"
    and b: "\<forall>visit (s::Grid3D). bresenham visit x1 y1 x2 y2 s =
              Some (fold (\<lambda>p. visit (fst p) (snd p)) pts' s)"
    using bresenham_points [where 'a = Grid3D, of x1 y1 x2 y2] by (elim exE conjE)
  from p assms have "pts' = pts" by simp
  then show ?thesis
    using fold_for_square_segment [where body = "\<lambda>l. unmark_cell l n", of k layer pts g]
    by (simp add: unmark_segment_def b)
qed

lemma mark_segment_fold:
  assumes "segment_points x1 y1 x2 y2 = Some pts"
  shows "mark_segment x1 y1 x2 y2 layer n k g =
         Some (fold (cell_step (\<lambda>l. mark_cell l n)) (segment_cells k layer pts) g)"
proof -
  obtain pts' where p: "segment_points x1 y1 x2 y2 = Some pts'"
    and b: "\<forall>visit (s::Grid3D). bresenham visit x1 y1 x2 y2 s =
              Some (fold (\<lambda>p. visit (fst p) (snd p)) pts' s)"
    using bresenham_points [where 'a = Grid3D, of x1 y1 x2 y2] by (elim exE conjE)
  from p assms have "pts' = pts" by simp
  then show ?thesis
    using fold_for_square_segment [where body = "\<lambda>l. mark_cell l n", of k layer pts g]
    by (simp add: mark_segment_def b)
qed

lemma unmark_via_fold:
  "unmark_via x y n r g = fold (cell_step (\<lambda>l. unmark_cell l n)) (via_cells r x y (layers g)) g"
  using fold_for_square_via [where body = "\<lambda>l. unmark_cell l n", of r x y "layers g" g]
  by (simp add: unmark_via_def)

lemma mark_via_fold:
  "mark_via x y n r g = fold (cell_step (\<lambda>l. mark_cell l n)) (via_cells r x y (layers g)) g"
  using fold_for_square_via [where body = "\<lambda>l. mark_cell l n", of r x y "layers g" g]
  by (simp add: mark_via_def mark_cell_via_fun_eq)

lemma unmark_cells_effect:
  assumes "wf_grid g" "is_valid g cx cy cl"
  shows "same_shape g (fold (cell_step (\<lambda>l. unmark_cell l n)) cs g) \<and>
         cell_at (fold (cell_step (\<lambda>l. unmark_cell l n)) cs g) cx cy cl =
           (if (cx, cy, cl) \<in> set cs then unmark_result n (cell_at g cx cy cl)
            else cell_at g cx cy cl)"
  by (rule fold_cell_step_effect [where f = "unmark_result n", OF _ _ _ assms])
     (simp_all add: same_shape_unmark_cell cell_at_unmark_cell unmark_result_idem)

lemma mark_cells_effect:
  assumes "wf_grid g" "is_valid g cx cy cl"
  shows "same_shape g (fold (cell_step (\<lambda>l. mark_cell l n)) cs g) \<and>
         cell_at (fold (cell_step (\<lambda>l. mark_cell l n)) cs g) cx cy cl =
           (if (cx, cy, cl) \<in> set cs then mark_result n (cell_at g cx cy cl)
            else cell_at g cx cy cl)"
  by (rule fold_cell_step_effect [where f = "mark_result n", OF _ _ _ assms])
     (simp_all add: same_shape_mark_cell cell_at_mark_cell mark_result_idem)

lemma unmark_cells_congestion:
  "congestion (fold (cell_step (\<lambda>l. unmark_cell l n)) cs g) = congestion g"
  by (induction cs arbitrary: g) (simp_all add: cell_step_def congestion_unmark_cell)

lemma segment_covers_iff:
  "segment_points x1 y1 x2 y2 = Some pts \<Longrightarrow>
   segment_covers x1 y1 x2 y2 k cx cy \<longleftrightarrow> (cx, cy, layer) \<in> set (segment_cells k layer pts)"
  by (simp add: segment_covers_def set_segment_cells list_ex_iff)

lemma unmark_segment_cell:
  assumes "wf_grid g" "is_valid g cx cy cl"
  obtains g' where "unmark_segment x1 y1 x2 y2 layer n k g = Some g'"
    "same_shape g g'" "congestion g' = congestion g"
    "cell_at g' cx cy cl =
       (if cl = layer \<and> segment_covers x1 y1 x2 y2 k cx cy
        then unmark_result n (cell_at g cx cy cl) else cell_at g cx cy cl)"
proof -
  obtain pts where p: "segment_points x1 y1 x2 y2 = Some pts"
    using bresenham_points [where 'a = Grid3D, of x1 y1 x2 y2] by (elim exE conjE)
  let ?g' = "fold (cell_step (\<lambda>l. unmark_cell l n)) (segment_cells k layer pts) g"
  have m: "(cx, cy, cl) \<in> set (segment_cells k layer pts) \<longleftrightarrow>
           cl = layer \<and> segment_covers x1 y1 x2 y2 k cx cy"
    using segment_covers_iff [OF p, of k cx cy layer] by (auto simp: set_segment_cells)
  show ?thesis
    using that [of ?g'] unmark_cells_effect [OF assms, of n "segment_cells k layer pts"]
    by (simp add: unmark_segment_fold [OF p] unmark_cells_congestion m)
qed

lemma mark_segment_cell:
  assumes "wf_grid g" "is_valid g cx cy cl"
  obtains g' where "mark_segment x1 y1 x2 y2 layer n k g = Some g'"
    "same_shape g g'"
    "cell_at g' cx cy cl =
       (if cl = layer \<and> segment_covers x1 y1 x2 y2 k cx cy
        then mark_result n (cell_at g cx cy cl) else cell_at g cx cy cl)"
proof -
  obtain pts where p: "segment_points x1 y1 x2 y2 = Some pts"
    using bresenham_points [where 'a = Grid3D, of x1 y1 x2 y2] by (elim exE conjE)
  let ?g' = "fold (cell_step (\<lambda>l. mark_cell l n)) (segment_cells k layer pts) g"
  have m: "(cx, cy, cl) \<in> set (segment_cells k layer pts) \<longleftrightarrow>
           cl = layer \<and> segment_covers x1 y1 x2 y2 k cx cy"
    using segment_covers_iff [OF p, of k cx cy layer] by (auto simp: set_segment_cells)
  show ?thesis
    using that [of ?g'] mark_cells_effect [OF assms, of n "segment_cells k layer pts"]
    by (simp add: mark_segment_fold [OF p] m)
qed

lemma unmark_via_cell:
  assumes "wf_grid g" "is_valid g cx cy cl"
  shows "same_shape g (unmark_via x y n r g)"
    and "congestion (unmark_via x y n r g) = congestion g"
    and "cell_at (unmark_via x y n r g) cx cy cl =
       (if in_square r x y cx cy then unmark_result n (cell_at g cx cy cl)
        else cell_at g cx cy cl)"
proof -
  have m: "(cx, cy, cl) \<in> set (via_cells r x y (layers g)) \<longleftrightarrow> in_square r x y cx cy"
    using assms(2) by (simp add: set_via_cells is_valid_def)
  show "same_shape g (unmark_via x y n r g)"
    and "congestion (unmark_via x y n r g) = congestion g"
    and "cell_at (unmark_via x y n r g) cx cy cl =
       (if in_square r x y cx cy then unmark_result n (cell_at g cx cy cl)
        else cell_at g cx cy cl)"
    using unmark_cells_effect [OF assms, of n "via_cells r x y (layers g)"]
    by (simp_all add: unmark_via_fold unmark_cells_congestion m)
qed

lemma segment_points_example: "segment_points 0 1 2 1 = Some [(0, 1), (1, 1), (2, 1)]"
  by (simp add: segment_points_def bresenham_def bresenham_loop.simps)

lemma wf_pad_grid: "wf_grid pad_grid"
  unfolding pad_grid_def by (intro same_shape_wf [OF same_shape_set_at] wf_Grid3D_new) simp_all

lemma cell_pad_grid:
  "cell_at pad_grid 1 1 0 = \<lparr> blocked = True, net = 5, usage_count = 0, history_cost = 0,
       is_obstacle = False, is_zone = False, pad_blocked = True, original_net = 5 \<rparr>"
  by (simp add: pad_grid_def cell_at_def set_at_def index_def Grid3D_new_def)

lemma valid_pad_grid: "is_valid pad_grid 1 1 0"
  by (simp add: pad_grid_def is_valid_def set_at_def Grid3D_new_def)

lemma wf_obstacle_grid: "wf_grid obstacle_grid"
  by (simp add: obstacle_grid_def mark_blocked_def wf_Grid3D_new
      same_shape_wf [OF same_shape_set_at])

lemma cell_obstacle_grid:
  "cell_at obstacle_grid 1 1 0 = \<lparr> blocked = True, net = 0, usage_count = 0, history_cost = 0,
       is_obstacle = True, is_zone = False, pad_blocked = False, original_net = 0 \<rparr>"
  by (simp add: obstacle_grid_def mark_blocked_def is_valid_def cell_at_def set_at_def index_def
      Grid3D_new_def GridCell_default_def)

lemma valid_obstacle_grid: "is_valid obstacle_grid 1 1 0"
  by (simp add: obstacle_grid_def mark_blocked_def is_valid_def set_at_def Grid3D_new_def)

lemma valid_pad_grid_free: "is_valid pad_grid 0 1 0"
  by (simp add: pad_grid_def is_valid_def set_at_def Grid3D_new_def)

lemma finite_valid_cells: "finite {(x, y, l). is_valid g x y l}"
proof -
  have "{(x, y, l). is_valid g x y l} \<subseteq> {0..cols g} \<times> {0..rows g} \<times> {0..layers g}"
    by (auto simp: is_valid_def)
  then show ?thesis by (rule finite_subset) simp
qed

lemma finite_newly_blocked: "finite (newly_blocked g g' b)"
  by (rule finite_subset [OF _ finite_valid_cells [of g]]) (auto simp: newly_blocked_def)

lemma newly_blocked_same: "newly_blocked g g b = {}"
  by (auto simp: newly_blocked_def)

lemma mark_rel_refl: "mark_rel g g"
  by (simp add: mark_rel_def same_shape_refl newly_blocked_same)

lemma mark_rel_trans:
  assumes ab: "mark_rel a b" and bc: "mark_rel b c"
  shows "mark_rel a c"
proof -
  have sh: "same_shape a b" "same_shape b c" using ab bc by (simp_all add: mark_rel_def)
  have mono_ab: "blocked (cell_at b x y l)" if "is_valid a x y l" "blocked (cell_at a x y l)" for x y l
    using ab that by (simp add: mark_rel_def)
  have mono_bc: "blocked (cell_at c x y l)" if "is_valid a x y l" "blocked (cell_at b x y l)" for x y l
    using bc that by (simp add: mark_rel_def same_shape_valid [OF sh(1)])
  have split: "newly_blocked a c k = newly_blocked a b k \<union> newly_blocked b c k" for k
    using mono_ab mono_bc
    by (auto simp: newly_blocked_def same_shape_valid [OF sh(1)] same_shape_cidx [OF sh(1)])
  have disj: "newly_blocked a b k \<inter> newly_blocked b c k = {}" for k
    by (auto simp: newly_blocked_def)
  have card: "card (newly_blocked a c k) = card (newly_blocked a b k) + card (newly_blocked b c k)" for k
    unfolding split by (rule card_Un_disjoint [OF finite_newly_blocked finite_newly_blocked disj])
  have len: "length (congestion b) = length (congestion a)"
    using sh(1) by (simp add: same_shape_def)
  have "congestion c ! k = congestion a ! k + int (card (newly_blocked a c k))"
    if "k < length (congestion a)" for k
    using ab bc that by (simp add: mark_rel_def len card)
  then show ?thesis
    using mono_ab mono_bc same_shape_trans [OF sh] by (simp add: mark_rel_def)
qed

lemma mark_rel_step:
  assumes wf: "wf_grid g"
  shows "mark_rel g (mark_cell layer n nx ny g)"
proof -
  let ?g' = "mark_cell layer n nx ny g"
  have cell: "cell_at ?g' x y l =
      (if (x, y, l) = (nx, ny, layer) then mark_result n (cell_at g x y l) else cell_at g x y l)"
    if "is_valid g x y l" for x y l
    using wf that by (rule cell_at_mark_cell)
  have mono: "blocked (cell_at ?g' x y l)" if "is_valid g x y l" "blocked (cell_at g x y l)" for x y l
    using that by (simp add: cell mark_result_def)
  show ?thesis
  proof (cases "is_valid g nx ny layer \<and> \<not> blocked (cell_at g nx ny layer)")
    case True
    let ?ci = "congestion_index g nx ny layer"
    have ci: "?ci < length (congestion g)" using wf True by (simp add: congestion_index_less)
    have nb: "newly_blocked g ?g' b = (if ?ci = b then {(nx, ny, layer)} else {})" for b
    proof -
      have "(x, y, l) \<in> newly_blocked g ?g' b \<longleftrightarrow> (x, y, l) = (nx, ny, layer) \<and> ?ci = b" for x y l
      proof (cases "is_valid g x y l")
        case v: True
        show ?thesis using True v
          by (auto simp: newly_blocked_def cell [OF v] mark_result_def)
      next
        case False
        with True show ?thesis by (auto simp: newly_blocked_def)
      qed
      then show ?thesis by auto
    qed
    have "congestion ?g' ! b = congestion g ! b + int (card (newly_blocked g ?g' b))"
      if "b < length (congestion g)" for b
      using True that by (simp add: congestion_mark_cell nb nth_list_update)
    then show ?thesis using mono by (simp add: mark_rel_def same_shape_mark_cell)
  next
    case False
    have nb: "newly_blocked g ?g' b = {}" for b
    proof -
      have "(x, y, l) \<notin> newly_blocked g ?g' b" for x y l
      proof (cases "is_valid g x y l")
        case v: True
        show ?thesis using False v
          by (auto simp: newly_blocked_def cell [OF v] mark_result_def)
      next
        case nv: False
        then show ?thesis by (simp add: newly_blocked_def)
      qed
      then show ?thesis by auto
    qed
    have "congestion ?g' = congestion g" using False by (auto simp: congestion_mark_cell)
    then show ?thesis using mono by (simp add: mark_rel_def same_shape_mark_cell nb)
  qed
qed

lemma mark_rel_fold:
  "wf_grid g \<Longrightarrow> mark_rel g (fold (cell_step (\<lambda>l. mark_cell l n)) cs g)"
proof (induction cs arbitrary: g)
  case Nil
  show ?case by (simp add: mark_rel_refl)
next
  case (Cons c cs)
  let ?g1 = "cell_step (\<lambda>l. mark_cell l n) c g"
  have r1: "mark_rel g ?g1" using Cons.prems by (simp add: cell_step_def mark_rel_step)
  then have "wf_grid ?g1" using Cons.prems same_shape_wf by (simp add: mark_rel_def) blast
  then have "mark_rel ?g1 (fold (cell_step (\<lambda>l. mark_cell l n)) cs ?g1)" by (rule Cons.IH)
  with r1 show ?case by (simp add: mark_rel_trans)
qed

lemma congestion_pad_grid: "congestion pad_grid = [0]"
  by (simp add: pad_grid_def set_at_def Grid3D_new_def)

lemma congestion_mark_via_pad_grid: "congestion (mark_via 1 1 7 1 pad_grid) = [8]"
  by code_simp

lemma same_shape_fold_mark: "wf_grid g \<Longrightarrow> same_shape g (fold (cell_step (\<lambda>l. mark_cell l n)) cs g)"
  using mark_rel_fold [of g n cs] by (simp add: mark_rel_def)

lemma same_shape_fold_unmark: "same_shape g (fold (cell_step (\<lambda>l. unmark_cell l n)) cs g)"
proof (induction cs arbitrary: g)
  case Nil
  show ?case by (simp add: same_shape_refl)
next
  case (Cons c cs)
  have "same_shape g (cell_step (\<lambda>l. unmark_cell l n) c g)"
    by (simp add: cell_step_def same_shape_unmark_cell)
  then show ?case using Cons.IH same_shape_trans by simp
qed

lemma reachable_wf: "reachable_grid g \<Longrightarrow> wf_grid g"
proof (induction rule: reachable_grid.induct)
  case (by_new c r l res ox oy)
  then show ?case by (rule wf_Grid3D_new)
next
  case (by_write g x y layer c)
  then show ?case using same_shape_wf [OF same_shape_set_at] by blast
next
  case (by_blocked g x y layer n obst)
  then show ?case using same_shape_wf [OF same_shape_set_at] by (simp add: mark_blocked_def)
next
  case (by_segment g x1 y1 x2 y2 layer n k g')
  obtain pts where p: "segment_points x1 y1 x2 y2 = Some pts"
    using bresenham_points [where 'a = Grid3D, of x1 y1 x2 y2] by (elim exE conjE)
  show ?case using by_segment same_shape_wf [OF same_shape_fold_mark]
    by (auto simp: mark_segment_fold [OF p])
next
  case (by_via g x y n r)
  then show ?case using same_shape_wf [OF same_shape_fold_mark] by (simp add: mark_via_fold)
next
  case (by_unsegment g x1 y1 x2 y2 layer n k g')
  obtain pts where p: "segment_points x1 y1 x2 y2 = Some pts"
    using bresenham_points [where 'a = Grid3D, of x1 y1 x2 y2] by (elim exE conjE)
  show ?case using by_unsegment same_shape_wf [OF same_shape_fold_unmark]
    by (auto simp: unmark_segment_fold [OF p])
next
  case (by_unvia g x y n r)
  then show ?case using same_shape_wf [OF same_shape_fold_unmark] by (simp add: unmark_via_fold)
next
  case (by_congestion g x y layer delta)
  then show ?case using same_shape_wf [OF same_shape_update_congestion] by blast
qed

lemma sdiv_nonneg: "0 \<le> (a::int) \<Longrightarrow> a sdiv 8 = a div 8"
  by (simp add: signed_divide_int_def sgn_if)

lemma reachable_clamp_grid: "reachable_grid clamp_grid"
  unfolding clamp_grid_def
  by (intro reachable_grid.by_congestion reachable_grid.by_new)
     (simp_all add: is_valid_def Grid3D_new_def)

lemma valid_clamp_grid: "is_valid clamp_grid 16 0 0"
  by (simp add: clamp_grid_def is_valid_def update_congestion_def Grid3D_new_def Let_def)

lemma congestion_clamp_grid: "congestion clamp_grid = [0, 1, 0, 0]"
  by (simp add: clamp_grid_def update_congestion_def Grid3D_new_def Let_def congestion_index_def
      signed_divide_int_def numeral_eq_Suc)

section \<open>Grid claims\<close>

text \<open>
  Claim C4 (pad protection).  A valid cell that is blocked and \<open>pad_blocked\<close> with
  \<open>original_net = P\<close> is still blocked and carries net \<open>P\<close> after
  \<open>unmark_segment\<close> (when the inflated footprint of the segment covers the cell on its
  layer) and after \<open>unmark_via\<close> (when the via square covers the cell), whatever the
  net argument \<open>n\<close> is.  \<open>unmark_segment\<close> always returns.
\<close>

theorem pad_protection:
  assumes "wf_grid g" "is_valid g cx cy cl"
    and "pad_blocked (cell_at g cx cy cl)" "blocked (cell_at g cx cy cl)"
    and "original_net (cell_at g cx cy cl) = P"
  shows "(cl = layer \<and> segment_covers x1 y1 x2 y2 k cx cy \<longrightarrow>
            (\<exists>g'. unmark_segment x1 y1 x2 y2 layer n k g = Some g' \<and>
                  blocked (cell_at g' cx cy cl) \<and> net (cell_at g' cx cy cl) = P)) \<and>
         (in_square r x y cx cy \<longrightarrow>
            blocked (cell_at (unmark_via x y n r g) cx cy cl) \<and>
            net (cell_at (unmark_via x y n r g) cx cy cl) = P)"
proof (intro conjI impI)
  assume c: "cl = layer \<and> segment_covers x1 y1 x2 y2 k cx cy"
  obtain g' where "unmark_segment x1 y1 x2 y2 layer n k g = Some g'"
    "cell_at g' cx cy cl =
       (if cl = layer \<and> segment_covers x1 y1 x2 y2 k cx cy
        then unmark_result n (cell_at g cx cy cl) else cell_at g cx cy cl)"
    using unmark_segment_cell [OF assms(1,2)] by metis
  then show "\<exists>g'. unmark_segment x1 y1 x2 y2 layer n k g = Some g' \<and>
                  blocked (cell_at g' cx cy cl) \<and> net (cell_at g' cx cy cl) = P"
    using c assms(3-5) by (simp add: unmark_result_def)
next
  assume "in_square r x y cx cy"
  then show "blocked (cell_at (unmark_via x y n r g) cx cy cl)"
    and "net (cell_at (unmark_via x y n r g) cx cy cl) = P"
    using assms(3-5) by (simp_all add: unmark_via_cell(3) [OF assms(1,2)] unmark_result_def)
qed

theorem pad_protection_witness:
  "wf_grid pad_grid \<and> is_valid pad_grid 1 1 0 \<and>
   pad_blocked (cell_at pad_grid 1 1 0) \<and> blocked (cell_at pad_grid 1 1 0) \<and>
   original_net (cell_at pad_grid 1 1 0) = 5 \<and>
   segment_covers 0 1 2 1 1 1 1 \<and> in_square 1 1 1 1 1 \<and>
   (\<exists>g'. unmark_segment 0 1 2 1 0 7 1 pad_grid = Some g' \<and>
         blocked (cell_at g' 1 1 0) \<and> net (cell_at g' 1 1 0) = 5) \<and>
   blocked (cell_at (unmark_via 1 1 7 1 pad_grid) 1 1 0) \<and>
   net (cell_at (unmark_via 1 1 7 1 pad_grid) 1 1 0) = 5"
proof -
  have h: "pad_blocked (cell_at pad_grid 1 1 0)" "blocked (cell_at pad_grid 1 1 0)"
    "original_net (cell_at pad_grid 1 1 0) = 5"
    by (simp_all add: cell_pad_grid)
  have c: "segment_covers 0 1 2 1 1 1 1" "in_square 1 1 1 1 1"
    by (simp_all add: segment_covers_def segment_points_example in_square_def)
  from pad_protection [OF wf_pad_grid valid_pad_grid h, of 0 0 1 2 1 1 7 1 1 1]
  show ?thesis using wf_pad_grid valid_pad_grid h c by simp
qed

text \<open>
  Claim C10 (rip-up does not protect static obstacles).  A valid cell inside the footprint
  that is not \<open>pad_blocked\<close> and whose net equals the net argument ends with
  \<open>blocked = false\<close> and \<open>net = 0\<close> after \<open>unmark_segment\<close> and after
  \<open>unmark_via\<close>; its \<open>is_obstacle\<close> flag is not consulted and keeps its value.  With
  \<open>n = 0\<close> this clears every no-net static obstacle cell of the footprint.
\<close>

theorem ripup_clears_static_obstacles:
  assumes "wf_grid g" "is_valid g cx cy cl"
    and "\<not> pad_blocked (cell_at g cx cy cl)" "net (cell_at g cx cy cl) = n"
  shows "(cl = layer \<and> segment_covers x1 y1 x2 y2 k cx cy \<longrightarrow>
            (\<exists>g'. unmark_segment x1 y1 x2 y2 layer n k g = Some g' \<and>
                  \<not> blocked (cell_at g' cx cy cl) \<and> net (cell_at g' cx cy cl) = 0 \<and>
                  is_obstacle (cell_at g' cx cy cl) = is_obstacle (cell_at g cx cy cl))) \<and>
         (in_square r x y cx cy \<longrightarrow>
            \<not> blocked (cell_at (unmark_via x y n r g) cx cy cl) \<and>
            net (cell_at (unmark_via x y n r g) cx cy cl) = 0 \<and>
            is_obstacle (cell_at (unmark_via x y n r g) cx cy cl) =
              is_obstacle (cell_at g cx cy cl))"
proof (intro conjI impI)
  assume c: "cl = layer \<and> segment_covers x1 y1 x2 y2 k cx cy"
  obtain g' where "unmark_segment x1 y1 x2 y2 layer n k g = Some g'"
    "cell_at g' cx cy cl =
       (if cl = layer \<and> segment_covers x1 y1 x2 y2 k cx cy
        then unmark_result n (cell_at g cx cy cl) else cell_at g cx cy cl)"
    using unmark_segment_cell [OF assms(1,2)] by metis
  then show "\<exists>g'. unmark_segment x1 y1 x2 y2 layer n k g = Some g' \<and>
                  \<not> blocked (cell_at g' cx cy cl) \<and> net (cell_at g' cx cy cl) = 0 \<and>
                  is_obstacle (cell_at g' cx cy cl) = is_obstacle (cell_at g cx cy cl)"
    using c assms(3,4) by (simp add: unmark_result_def)
next
  assume "in_square r x y cx cy"
  then show "\<not> blocked (cell_at (unmark_via x y n r g) cx cy cl)"
    and "net (cell_at (unmark_via x y n r g) cx cy cl) = 0"
    and "is_obstacle (cell_at (unmark_via x y n r g) cx cy cl) =
              is_obstacle (cell_at g cx cy cl)"
    using assms(3,4) by (simp_all add: unmark_via_cell(3) [OF assms(1,2)] unmark_result_def)
qed

theorem ripup_clears_static_obstacles_witness:
  "wf_grid obstacle_grid \<and> is_valid obstacle_grid 1 1 0 \<and>
   \<not> pad_blocked (cell_at obstacle_grid 1 1 0) \<and> net (cell_at obstacle_grid 1 1 0) = 0 \<and>
   blocked (cell_at obstacle_grid 1 1 0) \<and> is_obstacle (cell_at obstacle_grid 1 1 0) \<and>
   segment_covers 0 1 2 1 1 1 1 \<and> in_square 1 1 1 1 1 \<and>
   (\<exists>g'. unmark_segment 0 1 2 1 0 0 1 obstacle_grid = Some g' \<and>
         \<not> blocked (cell_at g' 1 1 0) \<and> net (cell_at g' 1 1 0) = 0 \<and>
         is_obstacle (cell_at g' 1 1 0)) \<and>
   \<not> blocked (cell_at (unmark_via 1 1 0 1 obstacle_grid) 1 1 0) \<and>
   net (cell_at (unmark_via 1 1 0 1 obstacle_grid) 1 1 0) = 0 \<and>
   is_obstacle (cell_at (unmark_via 1 1 0 1 obstacle_grid) 1 1 0)"
proof -
  have h: "\<not> pad_blocked (cell_at obstacle_grid 1 1 0)" "net (cell_at obstacle_grid 1 1 0) = 0"
    by (simp_all add: cell_obstacle_grid)
  have o: "blocked (cell_at obstacle_grid 1 1 0)" "is_obstacle (cell_at obstacle_grid 1 1 0)"
    by (simp_all add: cell_obstacle_grid)
  have c: "segment_covers 0 1 2 1 1 1 1" "in_square 1 1 1 1 1"
    by (simp_all add: segment_covers_def segment_points_example in_square_def)
  from ripup_clears_static_obstacles [OF wf_obstacle_grid valid_obstacle_grid h,
      of 0 0 1 2 1 1 1 1 1]
  show ?thesis using wf_obstacle_grid valid_obstacle_grid h o c by simp
qed

text \<open>
  Claim C3, amended (mark then rip up).  After \<open>mark_segment\<close> followed by
  \<open>unmark_segment\<close> with the same arguments, every valid cell of the inflated footprint
  that was unblocked and not \<open>pad_blocked\<close> is unblocked with net 0, and every valid
  cell that was blocked by a different net is still blocked; its net is unchanged, except that
  a \<open>pad_blocked\<close> cell inside the footprint ends with \<open>net = original_net\<close>.
  Both calls return.
\<close>

theorem mark_unmark_segment:
  assumes "wf_grid g" "is_valid g cx cy cl"
  shows "\<exists>g1 g2. mark_segment x1 y1 x2 y2 layer n k g = Some g1 \<and>
           unmark_segment x1 y1 x2 y2 layer n k g1 = Some g2 \<and>
           (cl = layer \<and> segment_covers x1 y1 x2 y2 k cx cy \<and>
            \<not> blocked (cell_at g cx cy cl) \<and> \<not> pad_blocked (cell_at g cx cy cl) \<longrightarrow>
              \<not> blocked (cell_at g2 cx cy cl) \<and> net (cell_at g2 cx cy cl) = 0) \<and>
           (blocked (cell_at g cx cy cl) \<and> net (cell_at g cx cy cl) \<noteq> n \<longrightarrow>
              blocked (cell_at g2 cx cy cl) \<and>
              net (cell_at g2 cx cy cl) =
                (if cl = layer \<and> segment_covers x1 y1 x2 y2 k cx cy \<and>
                    pad_blocked (cell_at g cx cy cl)
                 then original_net (cell_at g cx cy cl) else net (cell_at g cx cy cl)))"
proof -
  let ?cov = "cl = layer \<and> segment_covers x1 y1 x2 y2 k cx cy"
  obtain g1 where m: "mark_segment x1 y1 x2 y2 layer n k g = Some g1"
    and sh: "same_shape g g1"
    and c1: "cell_at g1 cx cy cl =
       (if ?cov then mark_result n (cell_at g cx cy cl) else cell_at g cx cy cl)"
    using mark_segment_cell [OF assms] by metis
  have wf1: "wf_grid g1" using sh assms(1) by (rule same_shape_wf)
  have v1: "is_valid g1 cx cy cl" using assms(2) by (simp add: same_shape_valid [OF sh])
  obtain g2 where u: "unmark_segment x1 y1 x2 y2 layer n k g1 = Some g2"
    and c2: "cell_at g2 cx cy cl =
       (if ?cov then unmark_result n (cell_at g1 cx cy cl) else cell_at g1 cx cy cl)"
    using unmark_segment_cell [OF wf1 v1] by metis
  define a where "a = cell_at g cx cy cl"
  define b where "b = cell_at g2 cx cy cl"
  define cov where "cov \<longleftrightarrow> cl = layer \<and> segment_covers x1 y1 x2 y2 k cx cy"
  have e: "b = (if cov then unmark_result n (mark_result n a) else a)"
  proof (cases "cl = layer \<and> segment_covers x1 y1 x2 y2 k cx cy")
    case True
    have "cell_at g2 cx cy cl = unmark_result n (mark_result n (cell_at g cx cy cl))"
      by (simp only: c1 [unfolded if_P [OF True]] c2 [unfolded if_P [OF True]])
    moreover have cov using True unfolding cov_def .
    ultimately show ?thesis by (simp only: a_def b_def if_True)
  next
    case False
    have "cell_at g2 cx cy cl = cell_at g cx cy cl"
      by (simp only: c1 [unfolded if_not_P [OF False]] c2 [unfolded if_not_P [OF False]])
    moreover have "\<not> cov" using False unfolding cov_def .
    ultimately show ?thesis by (simp only: a_def b_def if_False)
  qed
  have key: "(cov \<and> \<not> blocked a \<and> \<not> pad_blocked a \<longrightarrow> \<not> blocked b \<and> net b = 0) \<and>
             (blocked a \<and> net a \<noteq> n \<longrightarrow>
                blocked b \<and> net b = (if cov \<and> pad_blocked a then original_net a else net a))"
    unfolding e by (simp add: mark_result_def unmark_result_def)
  note key' = key [unfolded a_def b_def cov_def conj_assoc]
  show ?thesis
    using m u conjunct1 [OF key'] conjunct2 [OF key'] by blast
qed

theorem mark_unmark_segment_witness:
  "wf_grid pad_grid \<and> is_valid pad_grid 0 1 0 \<and>
   (\<exists>g1 g2. mark_segment 0 1 2 1 0 7 1 pad_grid = Some g1 \<and>
           unmark_segment 0 1 2 1 0 7 1 g1 = Some g2 \<and>
           (0 = (0::int) \<and> segment_covers 0 1 2 1 1 0 1 \<and>
            \<not> blocked (cell_at pad_grid 0 1 0) \<and> \<not> pad_blocked (cell_at pad_grid 0 1 0) \<longrightarrow>
              \<not> blocked (cell_at g2 0 1 0) \<and> net (cell_at g2 0 1 0) = 0) \<and>
           (blocked (cell_at pad_grid 0 1 0) \<and> net (cell_at pad_grid 0 1 0) \<noteq> 7 \<longrightarrow>
              blocked (cell_at g2 0 1 0) \<and>
              net (cell_at g2 0 1 0) =
                (if 0 = (0::int) \<and> segment_covers 0 1 2 1 1 0 1 \<and>
                    pad_blocked (cell_at pad_grid 0 1 0)
                 then original_net (cell_at pad_grid 0 1 0) else net (cell_at pad_grid 0 1 0))))"
  using mark_unmark_segment [OF wf_pad_grid valid_pad_grid_free, of 0 1 2 1 0 7 1]
    wf_pad_grid valid_pad_grid_free by simp

text \<open>
  Claim C3 as stated fails: a pad cell blocked by net 2 with \<open>original_net = 3\<close> has net 3
  after marking and ripping up a segment of net 1 over it.
\<close>

theorem mark_unmark_segment_counterexample:
  "blocked (cell_at foreign_pad_grid 0 0 0) \<and> net (cell_at foreign_pad_grid 0 0 0) = 2 \<and>
   Option.bind (mark_segment 0 0 0 0 0 1 0 foreign_pad_grid) (unmark_segment 0 0 0 0 0 1 0) =
     Some (set_at (Grid3D_new 1 1 1 1 0 0) 0 0 0
       \<lparr> blocked = True, net = 3, usage_count = 0, history_cost = 0,
         is_obstacle = False, is_zone = False, pad_blocked = True, original_net = 3 \<rparr>)"
  by (simp add: foreign_pad_grid_def mark_segment_def unmark_segment_def bresenham_def
      bresenham_loop.simps for_square_def mark_cell_def unmark_cell_def is_valid_def
      cell_at_def set_at_def index_def Grid3D_new_def Let_def)

text \<open>
  Claim C8 (congestion accounting).  On a well-formed grid, \<open>mark_segment\<close> and
  \<open>mark_via\<close> raise the counter of every congestion block \<open>b\<close> by exactly the number of
  that block's cells that were unblocked before the call and are blocked after it, and
  \<open>unmark_segment\<close> and \<open>unmark_via\<close> leave the whole counter vector unchanged.
\<close>

theorem congestion_accounting:
  assumes "wf_grid g" "b < length (congestion g)"
  shows "(\<exists>g'. mark_segment x1 y1 x2 y2 layer n k g = Some g' \<and>
               congestion g' ! b = congestion g ! b + int (card (newly_blocked g g' b))) \<and>
         congestion (mark_via x y n r g) ! b =
           congestion g ! b + int (card (newly_blocked g (mark_via x y n r g) b)) \<and>
         (\<exists>g'. unmark_segment x1 y1 x2 y2 layer n k g = Some g' \<and> congestion g' = congestion g) \<and>
         congestion (unmark_via x y n r g) = congestion g"
proof -
  obtain pts where p: "segment_points x1 y1 x2 y2 = Some pts"
    using bresenham_points [where 'a = Grid3D, of x1 y1 x2 y2] by (elim exE conjE)
  have 1: "\<exists>g'. mark_segment x1 y1 x2 y2 layer n k g = Some g' \<and>
               congestion g' ! b = congestion g ! b + int (card (newly_blocked g g' b))"
    using mark_rel_fold [OF assms(1), of n "segment_cells k layer pts"] assms(2)
    by (simp add: mark_segment_fold [OF p] mark_rel_def)
  have 2: "congestion (mark_via x y n r g) ! b =
           congestion g ! b + int (card (newly_blocked g (mark_via x y n r g) b))"
    using mark_rel_fold [OF assms(1), of n "via_cells r x y (layers g)"] assms(2)
    by (simp add: mark_via_fold mark_rel_def)
  have 3: "\<exists>g'. unmark_segment x1 y1 x2 y2 layer n k g = Some g' \<and> congestion g' = congestion g"
    by (simp add: unmark_segment_fold [OF p] unmark_cells_congestion)
  have 4: "congestion (unmark_via x y n r g) = congestion g"
    by (simp add: unmark_via_fold unmark_cells_congestion)
  from 1 2 3 4 show ?thesis by (intro conjI)
qed

theorem congestion_accounting_witness:
  "wf_grid pad_grid \<and> 0 < length (congestion pad_grid) \<and>
   (\<exists>g'. mark_segment 0 1 2 1 0 7 1 pad_grid = Some g' \<and>
         congestion g' ! 0 = congestion pad_grid ! 0 + int (card (newly_blocked pad_grid g' 0))) \<and>
   congestion (mark_via 1 1 7 1 pad_grid) ! 0 =
     congestion pad_grid ! 0 + int (card (newly_blocked pad_grid (mark_via 1 1 7 1 pad_grid) 0)) \<and>
   (\<exists>g'. unmark_segment 0 1 2 1 0 7 1 pad_grid = Some g' \<and> congestion g' = congestion pad_grid) \<and>
   congestion (unmark_via 1 1 7 1 pad_grid) = congestion pad_grid \<and>
   congestion pad_grid = [0] \<and> congestion (mark_via 1 1 7 1 pad_grid) = [8] \<and>
   card (newly_blocked pad_grid (mark_via 1 1 7 1 pad_grid) 0) = 8"
proof -
  have l: "0 < length (congestion pad_grid)" by (simp add: congestion_pad_grid)
  note t = congestion_accounting [OF wf_pad_grid l, of 0 1 2 1 0 7 1 1 1 1]
  have "int (card (newly_blocked pad_grid (mark_via 1 1 7 1 pad_grid) 0)) = 8"
    using conjunct1 [OF conjunct2 [OF t]]
    by (simp add: congestion_pad_grid congestion_mark_via_pad_grid)
  then have "card (newly_blocked pad_grid (mark_via 1 1 7 1 pad_grid) 0) = 8" by simp
  then show ?thesis
    using t wf_pad_grid l congestion_pad_grid congestion_mark_via_pad_grid by simp
qed

text \<open>
  Claim C7, amended (congestion lookup).  On every grid a caller can build, the congestion
  grid has \<open>max 1 (cols div 8)\<close> by \<open>max 1 (rows div 8)\<close> blocks per layer, and for every
  valid cell \<open>get_congestion\<close> is \<open>min 1 (count / 64)\<close>, where \<open>count\<close> is the counter of
  the block \<open>(min (x div 8) (congestion_cols - 1), min (y div 8) (congestion_rows - 1))\<close> of
  the cell's layer; that counter exists.  The block is \<open>(x div 8, y div 8)\<close> exactly when
  \<open>x < 8 * congestion_cols\<close> and \<open>y < 8 * congestion_rows\<close>.
\<close>

theorem get_congestion_clamped_block:
  assumes "reachable_grid g" "is_valid g x y layer"
  shows "congestion_cols g = max 1 (cols g div 8) \<and> congestion_rows g = max 1 (rows g div 8) \<and>
         length (congestion g) = nat (layers g * congestion_rows g * congestion_cols g) \<and>
         (let cx = min (x div 8) (congestion_cols g - 1);
              cy = min (y div 8) (congestion_rows g - 1);
              idx = nat (layer * congestion_rows g * congestion_cols g + cy * congestion_cols g + cx)
          in idx < length (congestion g) \<and>
             get_congestion g x y layer = min 1 (of_int (congestion g ! idx) / 64) \<and>
             (cx = x div 8 \<longleftrightarrow> x < 8 * congestion_cols g) \<and>
             (cy = y div 8 \<longleftrightarrow> y < 8 * congestion_rows g))"
proof -
  have wf: "wf_grid g" using assms(1) by (rule reachable_wf)
  have pos: "0 \<le> x" "0 \<le> y" "0 < cols g" "0 < rows g"
    using assms(2) by (simp_all add: is_valid_def)
  have dims: "congestion_cols g = max 1 (cols g div 8)" "congestion_rows g = max 1 (rows g div 8)"
    "congestion_size g = 8"
    using wf pos by (simp_all add: wf_grid_def sdiv_nonneg)
  have len: "length (congestion g) = nat (layers g * congestion_rows g * congestion_cols g)"
    using wf by (simp add: wf_grid_def)
  have ci: "congestion_index g x y layer =
      nat (layer * congestion_rows g * congestion_cols g +
           min (y div 8) (congestion_rows g - 1) * congestion_cols g +
           min (x div 8) (congestion_cols g - 1))"
    using pos by (simp add: congestion_index_def Let_def dims(3) sdiv_nonneg)
  have lt: "congestion_index g x y layer < length (congestion g)"
    using wf assms(2) by (rule congestion_index_less)
  have gc: "get_congestion g x y layer =
      min 1 (of_int (congestion g ! congestion_index g x y layer) / 64)"
    by (simp add: get_congestion_def Let_def dims(3))
  have cc: "0 < congestion_cols g" "0 < congestion_rows g" using dims by simp_all
  have ex: "min (x div 8) (congestion_cols g - 1) = x div 8 \<longleftrightarrow> x < 8 * congestion_cols g"
    using pos cc by (simp add: min_def) linarith
  have ey: "min (y div 8) (congestion_rows g - 1) = y div 8 \<longleftrightarrow> y < 8 * congestion_rows g"
    using pos cc by (simp add: min_def) linarith
  show ?thesis
    using dims(1,2) len lt gc ex ey unfolding ci Let_def by (intro conjI)
qed

theorem get_congestion_clamped_block_witness:
  "reachable_grid clamp_grid \<and> is_valid clamp_grid 16 0 0 \<and>
   congestion_cols clamp_grid = 2 \<and> congestion_rows clamp_grid = 2 \<and>
   length (congestion clamp_grid) = 4 \<and>
   get_congestion clamp_grid 16 0 0 = min 1 (of_int (congestion clamp_grid ! 1) / 64)"
  using get_congestion_clamped_block [OF reachable_clamp_grid valid_clamp_grid]
    reachable_clamp_grid valid_clamp_grid
  by (simp add: Let_def clamp_grid_def update_congestion_def Grid3D_new_def
      signed_divide_int_def congestion_index_def)

text \<open>
  Claim C7 as stated fails: at cell (16,0) of the 20 by 20 grid the lookup returns 1/64, the
  value of the last block of the row, while the counter addressed by block column
  \<open>16 div 8 = 2\<close>, which the two-column congestion grid does not have, is 0.
\<close>

theorem get_congestion_counterexample:
  "is_valid clamp_grid 16 0 0 \<and> get_congestion clamp_grid 16 0 0 = 1 / 64 \<and>
   min 1 (of_int (congestion clamp_grid !
            nat (0 * congestion_rows clamp_grid * congestion_cols clamp_grid +
                 (0 div 8) * congestion_cols clamp_grid + 16 div 8)) / (8 * 8)) = (0::rat) \<and>
   congestion_cols clamp_grid = 2 \<and> (16::int) div 8 = 2"
  using valid_clamp_grid congestion_clamp_grid
  by (simp add: get_congestion_def Let_def congestion_index_def)
     (simp add: clamp_grid_def update_congestion_def Grid3D_new_def Let_def signed_divide_int_def)

section \<open>Pathfinder lemmas\<close>

lemma astar_step_frame:
  assumes "astar_step ctx pf st = (r, st', pf')"
  shows "grid pf' = grid pf \<and> rules pf' = rules pf \<and> diagonal_routing pf' = diagonal_routing pf \<and>
         neighbors_2d pf' = neighbors_2d pf \<and>
         trace_half_width_cells pf' = trace_half_width_cells pf \<and>
         via_half_cells pf' = via_half_cells pf \<and> routable_layers pf' = routable_layers pf"
  using assms by (auto simp: astar_step_def Let_def split: if_splits)

lemma astar_loop_frame:
  "astar_loop ctx pf st = (r, st', pf') \<Longrightarrow>
     grid pf' = grid pf \<and> rules pf' = rules pf \<and> diagonal_routing pf' = diagonal_routing pf \<and>
     neighbors_2d pf' = neighbors_2d pf \<and>
     trace_half_width_cells pf' = trace_half_width_cells pf \<and>
     via_half_cells pf' = via_half_cells pf \<and> routable_layers pf' = routable_layers pf"
proof (induction ctx pf st arbitrary: r st' pf' rule: astar_loop.induct)
  case (1 ctx pf st)
  show ?case
  proof (cases "open_set st \<noteq> [] \<and> last_iterations pf < max_iterations ctx")
    case False
    with "1.prems" show ?thesis by (simp add: astar_loop.simps [of ctx pf st])
  next
    case True
    obtain r1 st1 pf1 where s: "astar_step ctx pf st = (r1, st1, pf1)"
      by (cases "astar_step ctx pf st") auto
    note f1 = astar_step_frame [OF s]
    show ?thesis
    proof (cases r1)
      case (Some idx)
      with "1.prems" True s have "pf' = pf1" by (simp add: astar_loop.simps [of ctx pf st])
      with f1 show ?thesis by simp
    next
      case None
      with "1.prems" True s have "astar_loop ctx pf1 st1 = (r, st', pf')"
        by (simp add: astar_loop.simps [of ctx pf st])
      from "1.IH" [OF True s [symmetric] None refl this] f1 show ?thesis by simp
    qed
  qed
qed

lemma astar_loop_iterations:
  "astar_loop ctx pf st = (r, st', pf') \<Longrightarrow>
     last_iterations pf \<le> last_iterations pf' \<and>
     last_iterations pf' \<le> max (last_iterations pf) (max_iterations ctx)"
proof (induction ctx pf st arbitrary: r st' pf' rule: astar_loop.induct)
  case (1 ctx pf st)
  show ?case
  proof (cases "open_set st \<noteq> [] \<and> last_iterations pf < max_iterations ctx")
    case False
    with "1.prems" show ?thesis by (simp add: astar_loop.simps [of ctx pf st])
  next
    case True
    obtain r1 st1 pf1 where s: "astar_step ctx pf st = (r1, st1, pf1)"
      by (cases "astar_step ctx pf st") auto
    note i1 = astar_step_iterations [OF s]
    show ?thesis
    proof (cases r1)
      case (Some idx)
      with "1.prems" True s have "pf' = pf1" by (simp add: astar_loop.simps [of ctx pf st])
      with i1 True show ?thesis by simp
    next
      case None
      with "1.prems" True s have "astar_loop ctx pf1 st1 = (r, st', pf')"
        by (simp add: astar_loop.simps [of ctx pf st])
      from "1.IH" [OF True s [symmetric] None refl this] i1 True show ?thesis by simp
    qed
  qed
qed

lemma astar_loop_not_found:
  "astar_loop ctx pf st = (None, st', pf') \<Longrightarrow>
     open_set st' = [] \<or> max_iterations ctx \<le> last_iterations pf'"
proof (induction ctx pf st arbitrary: st' pf' rule: astar_loop.induct)
  case (1 ctx pf st)
  show ?case
  proof (cases "open_set st \<noteq> [] \<and> last_iterations pf < max_iterations ctx")
    case False
    with "1.prems" show ?thesis by (auto simp add: astar_loop.simps [of ctx pf st])
  next
    case True
    obtain r1 st1 pf1 where s: "astar_step ctx pf st = (r1, st1, pf1)"
      by (cases "astar_step ctx pf st") auto
    show ?thesis
    proof (cases r1)
      case (Some idx)
      with "1.prems" True s show ?thesis by (simp add: astar_loop.simps [of ctx pf st])
    next
      case None
      with "1.prems" True s have "astar_loop ctx pf1 st1 = (None, st', pf')"
        by (simp add: astar_loop.simps [of ctx pf st])
      from "1.IH" [OF True s [symmetric] None refl this] show ?thesis .
    qed
  qed
qed

lemma efloat_less_trans: "efloat_less a b \<Longrightarrow> efloat_less b c \<Longrightarrow> efloat_less a c"
  by (cases a; cases b; cases c) simp_all

lemma efloat_less_total: "\<not> efloat_less a b \<Longrightarrow> \<not> efloat_less b a \<Longrightarrow> a = b"
  by (cases a; cases b) simp_all

lemma minimal_node_exists:
  "os \<noteq> [] \<Longrightarrow> \<exists>m \<in> set os. \<forall>n \<in> set os. \<not> efloat_less (f_score n) (f_score m)"
proof (induction os)
  case Nil
  then show ?case by simp
next
  case (Cons a os)
  show ?case
  proof (cases "os = []")
    case True
    have "\<not> efloat_less (f_score a) (f_score a)" by (cases "f_score a") simp_all
    with True show ?thesis by simp
  next
    case False
    then obtain m where m: "m \<in> set os" "\<forall>n \<in> set os. \<not> efloat_less (f_score n) (f_score m)"
      using Cons.IH by blast
    show ?thesis
    proof (cases "efloat_less (f_score a) (f_score m)")
      case True
      have "\<not> efloat_less (f_score n) (f_score a)" if "n \<in> set os" for n
        using m(2) that True efloat_less_trans by blast
      moreover have "\<not> efloat_less (f_score a) (f_score a)" by (cases "f_score a") simp_all
      ultimately show ?thesis by auto
    next
      case False
      with m show ?thesis by auto
    qed
  qed
qed

lemma min_candidates_nonempty: "os \<noteq> [] \<Longrightarrow> min_candidates os \<noteq> []"
proof -
  assume "os \<noteq> []"
  then obtain m where m: "m \<in> set os" "\<forall>n \<in> set os. \<not> efloat_less (f_score n) (f_score m)"
    using minimal_node_exists by blast
  then obtain i where i: "i < length os" "os ! i = m" by (auto simp: in_set_conv_nth)
  then have "i \<in> set (min_candidates os)"
    using m(2) by (simp add: min_candidates_def list_all_iff)
  then show ?thesis by auto
qed

lemma min_candidates_bound: "i \<in> set (min_candidates os) \<Longrightarrow> i < length os"
  by (simp add: min_candidates_def)

lemma pop_min_mem:
  assumes "os \<noteq> []"
  shows "fst (pop_min k os) \<in> set os" and "set (snd (pop_min k os)) \<subseteq> set os"
proof -
  let ?c = "min_candidates os"
  let ?i = "?c ! (k mod length ?c)"
  have "?c \<noteq> []" using assms by (rule min_candidates_nonempty)
  then have "?i \<in> set ?c" by simp
  then have "?i < length os" by (rule min_candidates_bound)
  then show "fst (pop_min k os) \<in> set os" by (simp add: pop_min_def Let_def)
  show "set (snd (pop_min k os)) \<subseteq> set os"
    by (auto simp: pop_min_def Let_def dest: in_set_takeD in_set_dropD)
qed

lemma push_node_inv:
  "closed_list (push_node nd g st) = closed_list st \<and>
   closed_set (push_node nd g st) = closed_set st \<and>
   set (open_set (push_node nd g st)) = insert nd (set (open_set st))"
  by (simp add: push_node_def)

lemma if_cases_pred: "(c \<Longrightarrow> P a) \<Longrightarrow> (\<not> c \<Longrightarrow> P b) \<Longrightarrow> P (if c then a else b)"
  by simp

lemma push_or_same:
  "parent_idx nd = idx \<Longrightarrow>
   push_node nd g st = st \<or> (\<exists>nd' g'. parent_idx nd' = idx \<and> push_node nd g st = push_node nd' g' st)"
  by blast

lemma expand_2d_cases:
  "expand_2d ctx pf cur idx nb st = st \<or>
   (\<exists>nd g. parent_idx nd = idx \<and> expand_2d ctx pf cur idx nb st = push_node nd g st)"
  unfolding expand_2d_def Let_def
  by (intro if_cases_pred [where P = "\<lambda>x. x = st \<or>
        (\<exists>nd g. parent_idx nd = idx \<and> x = push_node nd g st)"] disjI1 refl push_or_same)
     simp

lemma expand_via_cases:
  "expand_via ctx pf cur idx l st = st \<or>
   (\<exists>nd g. parent_idx nd = idx \<and> expand_via ctx pf cur idx l st = push_node nd g st)"
  unfolding expand_via_def Let_def
  by (intro if_cases_pred [where P = "\<lambda>x. x = st \<or>
        (\<exists>nd g. parent_idx nd = idx \<and> x = push_node nd g st)"] disjI1 refl push_or_same)
     simp

lemma expand_2d_inv:
  "closed_list (expand_2d ctx pf cur idx nb st) = closed_list st \<and>
   closed_set (expand_2d ctx pf cur idx nb st) = closed_set st \<and>
   (\<forall>n \<in> set (open_set (expand_2d ctx pf cur idx nb st)).
      n \<in> set (open_set st) \<or> parent_idx n = idx)"
  using expand_2d_cases [of ctx pf cur idx nb st]
  by (elim disjE exE conjE) (simp_all add: push_node_inv)

lemma expand_via_inv:
  "closed_list (expand_via ctx pf cur idx l st) = closed_list st \<and>
   closed_set (expand_via ctx pf cur idx l st) = closed_set st \<and>
   (\<forall>n \<in> set (open_set (expand_via ctx pf cur idx l st)).
      n \<in> set (open_set st) \<or> parent_idx n = idx)"
  using expand_via_cases [of ctx pf cur idx l st]
  by (elim disjE exE conjE) (simp_all add: push_node_inv)

lemma fold_expand_inv:
  assumes "\<And>a st. closed_list (step a st) = closed_list st \<and>
     (\<forall>n \<in> set (open_set (step a st)). n \<in> set (open_set st) \<or> parent_idx n = idx)"
  shows "closed_list (fold step as st) = closed_list st \<and>
     (\<forall>n \<in> set (open_set (fold step as st)). n \<in> set (open_set st) \<or> parent_idx n = idx)"
proof (induction as arbitrary: st)
  case Nil
  show ?case by simp
next
  case (Cons a as)
  from Cons.IH [of "step a st"] assms [of a st] show ?case by auto
qed

lemma astar_step_inv:
  assumes inv: "search_inv st" and ne: "open_set st \<noteq> []"
    and s: "astar_step ctx pf st = (r, st', pf')"
  shows "search_inv st'"
proof -
  define cur where "cur = fst (pop_min (tie ctx (last_iterations pf)) (open_set st))"
  define rest where "rest = snd (pop_min (tie ctx (last_iterations pf)) (open_set st))"
  define pf2 where "pf2 = pf\<lparr> last_iterations := last_iterations pf + 1,
                                 last_nodes_explored := last_nodes_explored pf + 1 \<rparr>"
  define idx where "idx = int (length (closed_list st))"
  define key where "key = (node_x cur, node_y cur, node_layer cur)"
  define st2 where "st2 = st\<lparr> open_set := rest, closed_set := insert key (closed_set st),
                               closed_list := closed_list st @ [cur] \<rparr>"
  define st3 where "st3 = fold (expand_2d ctx pf2 cur idx) (neighbors_2d pf2) st2"
  define st4 where "st4 = fold (expand_via ctx pf2 cur idx) (routable_layers pf2) st3"
  have cur: "cur \<in> set (open_set st)" and rest: "set rest \<subseteq> set (open_set st)"
    using pop_min_mem [OF ne] by (simp_all add: cur_def rest_def)
  have pok: "parents_ok (closed_list st)"
    and op: "\<And>n. n \<in> set (open_set st) \<Longrightarrow> parent_idx n < int (length (closed_list st))"
    using inv by (simp_all add: search_inv_def)
  have inv1: "search_inv (st\<lparr> open_set := rest \<rparr>)"
    using pok op rest by (auto simp: search_inv_def)
  have pok2: "parents_ok (closed_list st @ [cur])"
    using pok op [OF cur] by (auto simp: parents_ok_def nth_append less_Suc_eq)
  have cl3: "closed_list st3 = closed_list st2"
    and op3: "\<And>n. n \<in> set (open_set st3) \<Longrightarrow> n \<in> set (open_set st2) \<or> parent_idx n = idx"
    using fold_expand_inv [where step = "expand_2d ctx pf2 cur idx" and idx = idx,
        of "neighbors_2d pf2" st2] expand_2d_inv
    by (simp_all add: st3_def)
  have cl4: "closed_list st4 = closed_list st3"
    and op4: "\<And>n. n \<in> set (open_set st4) \<Longrightarrow> n \<in> set (open_set st3) \<or> parent_idx n = idx"
    using fold_expand_inv [where step = "expand_via ctx pf2 cur idx" and idx = idx,
        of "routable_layers pf2" st3] expand_via_inv
    by (simp_all add: st4_def)
  have op_rest: "parent_idx n < 1 + int (length (closed_list st))" if "n \<in> set rest" for n
    using op [of n] rest that by auto
  have inv2: "search_inv st2"
    using pok2 op_rest by (simp add: search_inv_def st2_def)
  have inv4: "search_inv st4"
  proof -
    have "parent_idx n < int (length (closed_list st4))" if "n \<in> set (open_set st4)" for n
    proof -
      from op4 [OF that] op3 have "n \<in> set (open_set st2) \<or> parent_idx n = idx" by blast
      then show ?thesis
        using op_rest [of n] by (auto simp: cl4 cl3 st2_def idx_def)
    qed
    then show ?thesis using pok2 by (simp add: search_inv_def cl4 cl3 st2_def)
  qed
  have e: "astar_step ctx pf st =
      (if key \<in> closed_set st
       then (None, st\<lparr> open_set := rest \<rparr>, pf\<lparr> last_iterations := last_iterations pf + 1 \<rparr>)
       else if node_x cur = end_gx ctx \<and> node_y cur = end_gy ctx \<and>
               node_layer cur \<in> set (valid_end_layers ctx)
            then (Some idx, st2, pf2) else (None, st4, pf2))"
    unfolding astar_step_def Let_def st4_def st3_def st2_def pf2_def idx_def key_def
      cur_def rest_def
    by simp
  have "st' = st\<lparr> open_set := rest \<rparr> \<or> st' = st2 \<or> st' = st4"
    using s unfolding e by (simp split: if_splits)
  with inv1 inv2 inv4 show ?thesis by blast
qed

lemma astar_loop_inv:
  "search_inv st \<Longrightarrow> astar_loop ctx pf st = (r, st', pf') \<Longrightarrow> search_inv st'"
proof (induction ctx pf st arbitrary: r st' pf' rule: astar_loop.induct)
  case (1 ctx pf st)
  show ?case
  proof (cases "open_set st \<noteq> [] \<and> last_iterations pf < max_iterations ctx")
    case False
    with "1.prems" show ?thesis by (simp add: astar_loop.simps [of ctx pf st])
  next
    case True
    obtain r1 st1 pf1 where s: "astar_step ctx pf st = (r1, st1, pf1)"
      by (cases "astar_step ctx pf st") auto
    have inv1: "search_inv st1" using "1.prems"(1) True s astar_step_inv by blast
    show ?thesis
    proof (cases r1)
      case (Some idx)
      with "1.prems" True s have "st' = st1" by (simp add: astar_loop.simps [of ctx pf st])
      with inv1 show ?thesis by simp
    next
      case None
      with "1.prems" True s have "astar_loop ctx pf1 st1 = (r, st', pf')"
        by (simp add: astar_loop.simps [of ctx pf st])
      from "1.IH" [OF True s [symmetric] None refl inv1 this] show ?thesis .
    qed
  qed
qed

lemma seed_inv:
  "search_inv st \<Longrightarrow> search_inv (fold (seed_start pf ctx) ls st)"
proof (induction ls arbitrary: st)
  case Nil
  then show ?case by simp
next
  case (Cons l ls)
  have "search_inv (seed_start pf ctx l st)"
    using Cons.prems
    by (auto simp: seed_start_def Let_def push_node_def search_inv_def)
  then show ?case using Cons.IH by simp
qed

lemma collect_path_total:
  assumes "parents_ok cl"
  shows "\<exists>p. collect_path pf cl idx path = Some p"
proof (induction "nat (idx + 1)" arbitrary: idx path rule: less_induct)
  case less
  show ?case
  proof (cases "idx \<ge> 0 \<and> idx < int (length cl)")
    case False
    have "collect_path pf cl idx path = Some path"
      by (subst collect_path.simps) (simp only: False if_False simp_thms)
    then show ?thesis by blast
  next
    case True
    let ?nd = "cl ! nat idx"
    let ?path' = "path @ [(fst (grid_to_world (grid pf) (node_x ?nd) (node_y ?nd)),
                    snd (grid_to_world (grid pf) (node_x ?nd) (node_y ?nd)),
                    node_layer ?nd, via_from_parent ?nd)]"
    from True have "nat idx < length cl" by linarith
    then have "parent_idx ?nd < int (nat idx)"
      using assms unfolding parents_ok_def by blast
    then have "nat (parent_idx ?nd + 1) < nat (idx + 1)" using True by linarith
    from less [OF this, of ?path']
    obtain p where p: "collect_path pf cl (parent_idx ?nd) ?path' = Some p" by blast
    have "collect_path pf cl idx path = collect_path pf cl (parent_idx ?nd) ?path'"
      by (subst collect_path.simps) (simp only: True if_True simp_thms)
    with p show ?thesis by simp
  qed
qed

lemma search_inv_initial:
  "search_inv \<lparr> open_set = [], closed_set = {}, g_scores = Map.empty, closed_list = [] \<rparr>"
  by (simp add: search_inv_def parents_ok_def)

lemma route_search_props:
  assumes "route_search sx sy sl ex ey el n sls els neg pfac w tb pf = (found, st, pf')"
  shows "grid pf' = grid pf" "rules pf' = rules pf" "routable_layers pf' = routable_layers pf"
    "search_inv st"
    "0 \<le> last_iterations pf'"
    "last_iterations pf' \<le> max 0 (cols (grid pf) * rows (grid pf) * 4)"
    "found = None \<Longrightarrow> open_set st = [] \<or> cols (grid pf) * rows (grid pf) * 4 \<le> last_iterations pf'"
proof -
  define ctx where "ctx = route_ctx pf sx sy sl ex ey el n sls els neg pfac w tb"
  define st0 where "st0 = fold (seed_start pf ctx) (valid_start_layers ctx)
      \<lparr> open_set = [], closed_set = {}, g_scores = Map.empty, closed_list = [] \<rparr>"
  define pf0 where "pf0 = pf\<lparr> last_iterations := 0, last_nodes_explored := 0 \<rparr>"
  have l: "astar_loop ctx pf0 st0 = (found, st, pf')"
    using assms by (simp add: route_search_def Let_def ctx_def st0_def pf0_def)
  have m: "max_iterations ctx = cols (grid pf) * rows (grid pf) * 4"
    by (simp add: ctx_def route_ctx_def)
  from astar_loop_frame [OF l]
  show "grid pf' = grid pf" "rules pf' = rules pf" "routable_layers pf' = routable_layers pf"
    by (simp_all add: pf0_def)
  have "search_inv st0" unfolding st0_def by (rule seed_inv [OF search_inv_initial])
  then show "search_inv st" using l by (rule astar_loop_inv)
  from astar_loop_iterations [OF l]
  show "0 \<le> last_iterations pf'"
    "last_iterations pf' \<le> max 0 (cols (grid pf) * rows (grid pf) * 4)"
    by (simp_all add: pf0_def m)
  show "open_set st = [] \<or> cols (grid pf) * rows (grid pf) * 4 \<le> last_iterations pf'"
    if "found = None"
    using astar_loop_not_found [of ctx pf0 st0 st pf'] l that by (simp add: m)
qed

lemma reconstruct_path_total:
  assumes "parents_ok cl"
  shows "\<exists>r. reconstruct_path pf cl idx sx sy ex ey n = Some r"
proof -
  obtain p where "collect_path pf cl idx [] = Some p"
    using collect_path_total [OF assms] by blast
  then show ?thesis by (simp add: reconstruct_path_def Let_def)
qed

lemma route_cases:
  assumes "route_search sx sy sl ex ey el n sls els neg pfac w tb pf = (found, st, pf')"
  shows "\<exists>r. route sx sy sl ex ey el n sls els neg pfac w tb pf = Some (r, pf') \<and>
             (success r \<longleftrightarrow> found \<noteq> None) \<and>
             (found = None \<longrightarrow>
                r = \<lparr> segments = [], vias = [], route_net = n, success = False \<rparr>)"
proof (cases found)
  case None
  then show ?thesis using assms by (simp add: route_def Let_def)
next
  case (Some idx)
  have "parents_ok (closed_list st)"
    using route_search_props(4) [OF assms] by (simp add: search_inv_def)
  then obtain r where "reconstruct_path pf' (closed_list st) idx sx sy ex ey n = Some r"
    using reconstruct_path_total by blast
  then show ?thesis using assms Some by (simp add: route_def Let_def)
qed

lemma wf_detour_grid: "wf_grid detour_grid"
  by (simp add: detour_grid_def mark_blocked_def wf_Grid3D_new
      same_shape_wf [OF same_shape_set_at])

section \<open>Pathfinder claims\<close>

text \<open>
  Claim C5 (failure result).  Every \<open>route\<close> call returns.  A result with
  \<open>success = false\<close> is exactly \<open>{segments = [], vias = [], net, success = false}\<close> with the
  requested net, and it is returned exactly when the search loop is left without reaching
  the goal, which happens only with an empty open set or with the iteration count at
  \<open>cols * rows * 4\<close>.
\<close>

theorem route_failure_result:
  "\<exists>r pf'. route sx sy sl ex ey el n sls els neg pfac w tb pf = Some (r, pf') \<and>
     (\<not> success r \<longleftrightarrow> fst (route_search sx sy sl ex ey el n sls els neg pfac w tb pf) = None) \<and>
     (\<not> success r \<longrightarrow>
        r = \<lparr> segments = [], vias = [], route_net = n, success = False \<rparr> \<and>
        (open_set (fst (snd (route_search sx sy sl ex ey el n sls els neg pfac w tb pf))) = [] \<or>
         cols (grid pf) * rows (grid pf) * 4 \<le> last_iterations pf'))"
proof -
  obtain found st pf' where
    s: "route_search sx sy sl ex ey el n sls els neg pfac w tb pf = (found, st, pf')"
    by (cases "route_search sx sy sl ex ey el n sls els neg pfac w tb pf") auto
  obtain r where r: "route sx sy sl ex ey el n sls els neg pfac w tb pf = Some (r, pf')"
    "success r \<longleftrightarrow> found \<noteq> None"
    "found = None \<longrightarrow> r = \<lparr> segments = [], vias = [], route_net = n, success = False \<rparr>"
    using route_cases [OF s] by blast
  show ?thesis
    using r route_search_props(7) [OF s] by (simp add: s)
qed

theorem route_failure_result_witness:
  "fst (route_search 0 0 0 2 0 0 7 [] [] False 0 1 first_min wall_pf) = None \<and>
   (\<exists>r pf'. route 0 0 0 2 0 0 7 [] [] False 0 1 first_min wall_pf = Some (r, pf') \<and>
      \<not> success r \<and> r = \<lparr> segments = [], vias = [], route_net = 7, success = False \<rparr>)"
proof -
  have e: "fst (route_search 0 0 0 2 0 0 7 [] [] False 0 1 first_min wall_pf) = None"
    by code_simp
  from route_failure_result [of 0 0 0 2 0 0 7 "[]" "[]" False 0 1 first_min wall_pf] e
  show ?thesis by auto
qed

text \<open>
  Claim C6 (the grid is not mutated).  Every \<open>route\<close> call returns, and the grid the
  pathfinder refers to is the same value after the call as before it: every field of every
  cell and every congestion counter.  The design rules and the routable layers are unchanged
  as well; only the two statistics of the pathfinder are written.
\<close>

theorem route_preserves_grid:
  "\<exists>r pf'. route sx sy sl ex ey el n sls els neg pfac w tb pf = Some (r, pf') \<and>
     grid pf' = grid pf \<and> rules pf' = rules pf \<and> routable_layers pf' = routable_layers pf"
proof -
  obtain found st pf' where
    s: "route_search sx sy sl ex ey el n sls els neg pfac w tb pf = (found, st, pf')"
    by (cases "route_search sx sy sl ex ey el n sls els neg pfac w tb pf") auto
  from route_cases [OF s] route_search_props(1-3) [OF s] show ?thesis by blast
qed

theorem route_preserves_grid_witness:
  "\<exists>r pf'. route 0 0 0 2 0 0 7 [0, 1] [0, 1] False 0 1 first_min detour_pf = Some (r, pf') \<and>
     grid pf' = detour_grid \<and> last_iterations pf' = 5"
proof -
  have e: "map_option (\<lambda>p. last_iterations (snd p))
             (route 0 0 0 2 0 0 7 [0, 1] [0, 1] False 0 1 first_min detour_pf) = Some 5"
    by code_simp
  have g: "grid detour_pf = detour_grid" by (simp add: detour_pf_def Pathfinder_new_def)
  from route_preserves_grid [of 0 0 0 2 0 0 7 "[0, 1]" "[0, 1]" False 0 1 first_min detour_pf] e g
  show ?thesis by auto
qed

text \<open>
  Claim C9 (termination and iteration bound).  On a well-formed grid every \<open>route\<close> call
  returns, and the iteration statistic, which counts the pops from the open set (one per
  loop iteration), is at most \<open>cols * rows * 4\<close> afterwards.
\<close>

theorem route_terminates:
  assumes "wf_grid (grid pf)"
  shows "\<exists>r pf'. route sx sy sl ex ey el n sls els neg pfac w tb pf = Some (r, pf') \<and>
     0 \<le> last_iterations pf' \<and>
     last_iterations pf' \<le> cols (grid pf) * rows (grid pf) * 4"
proof -
  obtain found st pf' where
    s: "route_search sx sy sl ex ey el n sls els neg pfac w tb pf = (found, st, pf')"
    by (cases "route_search sx sy sl ex ey el n sls els neg pfac w tb pf") auto
  have "0 \<le> cols (grid pf) * rows (grid pf) * 4"
    using assms by (simp add: wf_grid_def)
  with route_cases [OF s] route_search_props(5,6) [OF s] show ?thesis by auto
qed

theorem route_terminates_witness:
  "wf_grid (grid detour_pf) \<and>
   (\<exists>r pf'. route 0 0 0 2 0 0 7 [0, 1] [0, 1] False 0 1 first_min detour_pf = Some (r, pf') \<and>
      0 \<le> last_iterations pf' \<and> last_iterations pf' \<le> 3 * 2 * 4)"
proof -
  have g: "grid detour_pf = detour_grid" by (simp add: detour_pf_def Pathfinder_new_def)
  have w: "wf_grid (grid detour_pf)" by (simp add: g wf_detour_grid)
  have d: "cols detour_grid = 3" "rows detour_grid = 2"
    by (simp_all add: detour_grid_def mark_blocked_def set_at_def Grid3D_new_def)
  from route_terminates [OF w, of 0 0 0 2 0 0 7 "[0, 1]" "[0, 1]" False 0 1 first_min] w
  show ?thesis by (simp add: g d)
qed

text \<open>
  Claim C1, evaluated at a failing input.  The route from (0,0) to (4/128,0) for net 7
  succeeds with two segments along row 0.  The grid point (1,0) lies strictly inside the
  first segment, the footprint radius is 1, and the cell (1,1), within Chebyshev distance 1
  of (1,0) on the same layer, is blocked by net 9; it is neither the start cell (0,0) nor
  the end cell (4,0).
\<close>

theorem clearance_not_enforced_example:
  "map_option fst (route 0 0 0 (4 / 128) 0 0 7 [] [] False 0 1 first_min clearance_pf) =
     Some \<lparr> segments =
              [\<lparr> seg_x1 = 0, seg_y1 = 0, seg_x2 = 2 / 128, seg_y2 = 0, seg_width = 1 / 128,
                 seg_layer = 0, seg_net = 7 \<rparr>,
               \<lparr> seg_x1 = 2 / 128, seg_y1 = 0, seg_x2 = 4 / 128, seg_y2 = 0, seg_width = 1 / 128,
                 seg_layer = 0, seg_net = 7 \<rparr>],
            vias = [], route_net = 7, success = True \<rparr> \<and>
   trace_half_width_cells clearance_pf = 1 \<and>
   grid_to_world clearance_grid 1 0 = (1 / 128, 0) \<and>
   in_square 1 1 0 1 1 \<and>
   is_valid clearance_grid 1 1 0 \<and>
   blocked (cell_at clearance_grid 1 1 0) \<and> net (cell_at clearance_grid 1 1 0) = 9 \<and>
   world_to_grid clearance_grid 0 0 = (0, 0) \<and>
   world_to_grid clearance_grid (4 / 128) 0 = (4, 0)"
  by code_simp

text \<open>
  Claim C2, evaluated at a failing input.  With weight 1 and negotiated mode off, the search
  from (3,0) to (0,1) returns a goal node of g-score 7, under two different tie-breaking
  orders, while the legal path down, left, left, left from the start node reaches the goal
  cell with total cost 5.5.
\<close>

theorem astar_not_optimal_example:
  "found_g_score (route_search 3 0 0 0 1 0 7 [] [] False 0 1 first_min turn_pf) = Some (Fin 7) \<and>
   found_g_score (route_search 3 0 0 0 1 0 7 [] [] False 0 1 second_min turn_pf) = Some (Fin 7) \<and>
   open_set (fold (seed_start turn_pf turn_ctx) (valid_start_layers turn_ctx)
      \<lparr> open_set = [], closed_set = {}, g_scores = Map.empty, closed_list = [] \<rparr>) =
     [turn_start] \<and>
   map_option g_score
     (follow_moves turn_ctx turn_pf turn_start [move_down, move_left, move_left, move_left]) =
     Some (Fin (11 / 2)) \<and>
   map_option node_x
     (follow_moves turn_ctx turn_pf turn_start [move_down, move_left, move_left, move_left]) =
     Some (end_gx turn_ctx) \<and>
   map_option node_y
     (follow_moves turn_ctx turn_pf turn_start [move_down, move_left, move_left, move_left]) =
     Some (end_gy turn_ctx) \<and>
   map_option node_layer
     (follow_moves turn_ctx turn_pf turn_start [move_down, move_left, move_left, move_left]) =
     Some 0 \<and>
   valid_end_layers turn_ctx = [0]"
  by code_simp

end
